theory Spec2Isabelle
  imports Main "HOL-Library.Word"
begin

section \<open>havINI: a shallow embedding of havINI.hpp\<close>

text \<open>
  The model follows the default build of the header (\<open>HAVINI_CASE_SENSITIVE\<close> not
  defined) on an LP64 little-endian host whose global locale is the classic "C" locale.
  A \<open>std::string\<close> is a \<open>string\<close> (a list of 8-bit \<open>char\<close>s), an \<open>unsigned int\<close> is a
  \<open>32 word\<close>, a thrown exception is the \<open>Inl\<close> branch of a sum.
\<close>

subsection \<open>Enumerations and exceptions\<close>

datatype havINIBOMType = None_BOM | UTF8 | UTF16LE | UTF16BE | UTF32LE | UTF32BE

datatype havINIDataType = Empty | Comment | Value | Array

datatype havINIPosition = Start | End | Above | Below

datatype exn =
    runtime_error string
  | invalid_argument
  | out_of_range
  | bad_optional_access
  | range_error

subsection \<open>Characters of the classic locale\<close>

definition tolower :: "char \<Rightarrow> char" where
  "tolower c = (let n = (of_char c :: nat) in if 65 \<le> n \<and> n \<le> 90 then char_of (n + 32) else c)"

definition ToLower :: "string \<Rightarrow> string" where
  "ToLower s = map tolower s"

definition isspace :: "char \<Rightarrow> bool" where
  "isspace c = (let n = (of_char c :: nat) in n = 32 \<or> (9 \<le> n \<and> n \<le> 13))"

definition isdigit :: "char \<Rightarrow> bool" where
  "isdigit c = (let n = (of_char c :: nat) in 48 \<le> n \<and> n \<le> 57)"

definition isxdigit :: "char \<Rightarrow> bool" where
  "isxdigit c = (let n = (of_char c :: nat) in
     (48 \<le> n \<and> n \<le> 57) \<or> (65 \<le> n \<and> n \<le> 70) \<or> (97 \<le> n \<and> n \<le> 102))"

subsection \<open>havUtils\<close>

definition StartsWith :: "string \<Rightarrow> string \<Rightarrow> bool" where
  "StartsWith sv pre = (length sv \<ge> length pre \<and> take (length pre) sv = pre)"

definition EndsWith :: "string \<Rightarrow> string \<Rightarrow> bool" where
  "EndsWith sv suf = (length sv \<ge> length suf \<and> drop (length sv - length suf) sv = suf)"

text \<open>
  \<open>havUtils::Split\<close> for a delimiter of one character (the only way the parser calls it):
  \<open>find_first_not_of\<close> skips a run of delimiters, \<open>find\<close> ends the token at the next one.
\<close>

function Split_loop :: "char \<Rightarrow> string \<Rightarrow> string list" where
  "Split_loop d s =
     (case dropWhile (\<lambda>c. c = d) s of
        [] \<Rightarrow> []
      | c # r \<Rightarrow> takeWhile (\<lambda>x. x \<noteq> d) (c # r) # Split_loop d (dropWhile (\<lambda>x. x \<noteq> d) (c # r)))"
  by pat_completeness auto
termination
proof (relation "measure (\<lambda>(d, s). length s)")
  show "wf (measure (\<lambda>(d, s). length s))" by simp
next
  fix d :: char and s :: string and c r
  assume h: "dropWhile (\<lambda>c. c = d) s = c # r"
  have cd: "c \<noteq> d" using h hd_dropWhile [of "\<lambda>c. c = d" s] by auto
  have "length (dropWhile (\<lambda>x. x \<noteq> d) (c # r)) < length (c # r)"
    using cd length_dropWhile_le [of "\<lambda>x. x \<noteq> d" r] by simp
  also have "\<dots> \<le> length s"
    using h length_dropWhile_le [of "\<lambda>c. c = d" s] by simp
  finally show "((d, dropWhile (\<lambda>x. x \<noteq> d) (c # r)), (d, s)) \<in> measure (\<lambda>(d, s). length s)"
    by simp
qed

declare Split_loop.simps [simp del]

definition Split :: "string \<Rightarrow> char \<Rightarrow> string list" where
  "Split v d = (let result = Split_loop d v in if result = [] then [v] else result)"

subsection \<open>\<open>std::to_string\<close> and \<open>std::stol\<close>\<close>

definition digit_char :: "nat \<Rightarrow> char" where
  "digit_char n = char_of (48 + n)"

function to_string :: "nat \<Rightarrow> string" where
  "to_string n = (if n < 10 then [digit_char n] else to_string (n div 10) @ [digit_char (n mod 10)])"
  by pat_completeness auto
termination
  by (relation "measure id") auto

declare to_string.simps [simp del]

definition digit_val :: "char \<Rightarrow> int" where
  "digit_val c = int (of_char c) - 48"

fun digits_val :: "int \<Rightarrow> string \<Rightarrow> int" where
  "digits_val acc [] = acc"
| "digits_val acc (c # cs) = digits_val (acc * 10 + digit_val c) cs"

text \<open>
  \<open>std::stol(s)\<close> in base 10: leading white space, an optional sign, then digits;
  \<open>invalid_argument\<close> when there is no digit, \<open>out_of_range\<close> outside a 64-bit \<open>long\<close>.
\<close>

definition stol :: "string \<Rightarrow> exn + int" where
  "stol s =
     (let s1 = dropWhile isspace s;
          neg = (s1 \<noteq> [] \<and> hd s1 = CHR ''-'');
          s2 = (if s1 \<noteq> [] \<and> (hd s1 = CHR ''-'' \<or> hd s1 = CHR ''+'') then tl s1 else s1);
          ds = takeWhile isdigit s2;
          v = (if neg then - digits_val 0 ds else digits_val 0 ds)
      in if ds = [] then Inl invalid_argument
         else if v < - (2 ^ 63) \<or> 2 ^ 63 - 1 < v then Inl out_of_range
         else Inr v)"

subsection \<open>havINIData\<close>

datatype havINIData = havINIData
  (mType: havINIDataType)
  (mKey: string)
  (mValue: string)
  (mInlineComment: "string option")
  (mAddQuotes: bool)
  (mArrayIndex: "32 word")
  (mHasArrayIndex: bool)
  (mArray: "havINIData list")

text \<open>The two constructors of the class, with their default arguments.\<close>

definition new_data :: "string \<Rightarrow> string \<Rightarrow> havINIDataType \<Rightarrow> bool \<Rightarrow> havINIData" where
  "new_data key val ty addQuotes = havINIData ty key val None addQuotes 0 False []"

definition new_data_key :: "string \<Rightarrow> havINIDataType \<Rightarrow> bool \<Rightarrow> bool \<Rightarrow> havINIData" where
  "new_data_key key ty addQuotes hasArrayIndex = havINIData ty key [] None addQuotes 0 hasArrayIndex []"

definition Data_SetValue :: "string \<Rightarrow> havINIData \<Rightarrow> havINIData" where
  "Data_SetValue v d =
     havINIData (mType d) (mKey d) v (mInlineComment d) (mAddQuotes d) (mArrayIndex d)
       (mHasArrayIndex d) (mArray d)"

definition Data_SetInlineComment :: "string \<Rightarrow> havINIData \<Rightarrow> havINIData" where
  "Data_SetInlineComment ic d =
     havINIData (mType d) (mKey d) (mValue d) (if ic = [] then None else Some ic) (mAddQuotes d)
       (mArrayIndex d) (mHasArrayIndex d) (mArray d)"

definition Data_SetAddQuotes :: "bool \<Rightarrow> havINIData \<Rightarrow> havINIData" where
  "Data_SetAddQuotes q d =
     havINIData (mType d) (mKey d) (mValue d) (mInlineComment d) q (mArrayIndex d)
       (mHasArrayIndex d) (mArray d)"

definition Data_SetArrayIndex :: "32 word \<Rightarrow> havINIData \<Rightarrow> havINIData" where
  "Data_SetArrayIndex i d =
     havINIData (mType d) (mKey d) (mValue d) (mInlineComment d) (mAddQuotes d) i
       (mHasArrayIndex d) (mArray d)"

definition Data_SetArray :: "havINIData list \<Rightarrow> havINIData \<Rightarrow> havINIData" where
  "Data_SetArray arr d =
     havINIData (mType d) (mKey d) (mValue d) (mInlineComment d) (mAddQuotes d) (mArrayIndex d)
       (mHasArrayIndex d) arr"

text \<open>
  \<open>std::find_if\<close> over a vector by key, and the mutation of the element it points to:
  \<open>has_key\<close> says whether the iterator differs from \<open>end()\<close>, \<open>update_first\<close> applies the
  mutation to the first element with the key.
\<close>

definition has_key :: "string \<Rightarrow> havINIData list \<Rightarrow> bool" where
  "has_key k xs = (find (\<lambda>d. mKey d = k) xs \<noteq> None)"

fun update_first :: "('a \<Rightarrow> bool) \<Rightarrow> ('a \<Rightarrow> 'a) \<Rightarrow> 'a list \<Rightarrow> 'a list" where
  "update_first P f [] = []"
| "update_first P f (x # xs) = (if P x then f x # xs else x # update_first P f xs)"

fun GetArrayIndex_loop :: "32 word \<Rightarrow> havINIData list \<Rightarrow> exn + 32 word" where
  "GetArrayIndex_loop arrayIndex [] = Inr arrayIndex"
| "GetArrayIndex_loop arrayIndex (e # es) =
     (case stol (mKey e) of
        Inl x \<Rightarrow> Inl x
      | Inr k \<Rightarrow>
          (let arrayKey = (word_of_int k :: 32 word)
           in GetArrayIndex_loop (if arrayIndex \<le> arrayKey then arrayKey + 1 else arrayIndex) es))"

definition GetArrayIndex :: "havINIData \<Rightarrow> exn + (32 word \<times> havINIData)" where
  "GetArrayIndex d =
     (case GetArrayIndex_loop 0 (mArray d) of
        Inl x \<Rightarrow> Inl x
      | Inr i \<Rightarrow> Inr (i, Data_SetArrayIndex i d))"

definition Data_SetArrayEntry ::
  "string \<Rightarrow> string \<Rightarrow> bool \<Rightarrow> bool \<Rightarrow> string \<Rightarrow> havINIData \<Rightarrow> exn + havINIData" where
  "Data_SetArrayEntry key0 val addQuotes setInlineComment inlineComment d0 =
     (case (if key0 = [] then
              (case GetArrayIndex d0 of
                 Inl x \<Rightarrow> Inl x
               | Inr (i, d1) \<Rightarrow> Inr (to_string (unat i), d1))
            else Inr (key0, d0)) of
        Inl x \<Rightarrow> Inl x
      | Inr (key1, d) \<Rightarrow>
          (let key = ToLower key1 in
           if \<not> has_key key (mArray d) then
             (let arr = mArray d @ [new_data key val Value False] in
              if setInlineComment then
                Inr (Data_SetArray
                  (update_first (\<lambda>e. mKey e = key)
                     (\<lambda>e. Data_SetAddQuotes addQuotes (Data_SetInlineComment inlineComment e)) arr) d)
              else Inr (Data_SetArray arr d))
           else
             Inr (Data_SetArray
               (update_first (\<lambda>e. mKey e = key)
                  (\<lambda>e. Data_SetAddQuotes addQuotes
                          (Data_SetInlineComment inlineComment (Data_SetValue val e)))
                  (mArray d)) d)))"

subsection \<open>havINISection\<close>

record havINISection =
  mSectionName :: string
  mSectionInlineComment :: "string option"
  mKeyValuePairs :: "havINIData list"
  mCommentLineCount :: "32 word"
  mEmptyLineCount :: "32 word"

definition new_section :: "string \<Rightarrow> havINISection" where
  "new_section name =
     \<lparr> mSectionName = name, mSectionInlineComment = None, mKeyValuePairs = [],
       mCommentLineCount = 0, mEmptyLineCount = 0 \<rparr>"

definition Section_SetInlineComment :: "string \<Rightarrow> havINISection \<Rightarrow> havINISection" where
  "Section_SetInlineComment ic s = s\<lparr> mSectionInlineComment := (if ic = [] then None else Some ic) \<rparr>"

definition Section_SetKeyValuePair :: "string \<Rightarrow> string \<Rightarrow> bool \<Rightarrow> havINISection \<Rightarrow> havINISection" where
  "Section_SetKeyValuePair key0 val addQuotes s =
     (let key = ToLower key0 in
      if has_key key (mKeyValuePairs s) then
        s\<lparr> mKeyValuePairs :=
             update_first (\<lambda>d. mKey d = key) (\<lambda>d. Data_SetAddQuotes addQuotes (Data_SetValue val d))
               (mKeyValuePairs s) \<rparr>
      else s\<lparr> mKeyValuePairs := mKeyValuePairs s @ [new_data key val Value addQuotes] \<rparr>)"

text \<open>
  A mutation that may throw, applied through the iterator \<open>find_if\<close> returned.
\<close>

fun update_first_exn ::
  "('a \<Rightarrow> bool) \<Rightarrow> ('a \<Rightarrow> exn + 'a) \<Rightarrow> 'a list \<Rightarrow> exn + 'a list" where
  "update_first_exn P f [] = Inr []"
| "update_first_exn P f (x # xs) =
     (if P x then (case f x of Inl e \<Rightarrow> Inl e | Inr y \<Rightarrow> Inr (y # xs))
      else (case update_first_exn P f xs of Inl e \<Rightarrow> Inl e | Inr ys \<Rightarrow> Inr (x # ys)))"

text \<open>
  For a key the section does not hold, \<open>emplace_back(mLocale, key, havINIDataType::Array,
  hasArrayIndex)\<close> selects the constructor whose fourth parameter is \<open>addQuotes\<close>: the new
  Array entry gets \<open>mAddQuotes = hasArrayIndex\<close> and \<open>mHasArrayIndex = false\<close>.
\<close>

definition Section_SetArrayEntry ::
  "string \<Rightarrow> string \<Rightarrow> bool \<Rightarrow> bool \<Rightarrow> string \<Rightarrow> string \<Rightarrow> bool \<Rightarrow> havINISection
     \<Rightarrow> exn + havINISection" where
  "Section_SetArrayEntry key0 val addQuotes setInlineComment inlineComment arrayIndex hasArrayIndex s =
     (let key = ToLower key0;
          kvs = (if has_key key (mKeyValuePairs s) then mKeyValuePairs s
                 else mKeyValuePairs s @ [new_data_key key Array hasArrayIndex False])
      in case update_first_exn (\<lambda>d. mKey d = key)
                (Data_SetArrayEntry (if hasArrayIndex then arrayIndex else [])
                   val addQuotes setInlineComment inlineComment) kvs of
           Inl e \<Rightarrow> Inl e
         | Inr kvs' \<Rightarrow> Inr (s\<lparr> mKeyValuePairs := kvs' \<rparr>))"

subsection \<open>havINIStream: the document and its style options\<close>

record havINIStream =
  mNewline :: string
  mCommentCharacter :: char
  mValueQuoteCharacter :: char
  mKeyValuePairDelimiter :: char
  mData :: "havINISection list"

definition new_stream :: havINIStream where
  "new_stream =
     \<lparr> mNewline = [CHR 0x0D, CHR 0x0A], mCommentCharacter = CHR '';'',
       mValueQuoteCharacter = CHR 0x22, mKeyValuePairDelimiter = CHR ''='',
       mData = [new_section ''hi_global''] \<rparr>"

definition has_section :: "string \<Rightarrow> havINISection list \<Rightarrow> bool" where
  "has_section n xs = (find (\<lambda>s. mSectionName s = n) xs \<noteq> None)"

definition HasSection :: "string \<Rightarrow> havINIStream \<Rightarrow> bool" where
  "HasSection sectionName st = has_section (ToLower sectionName) (mData st)"

definition GetValue :: "string \<Rightarrow> string \<Rightarrow> string \<Rightarrow> havINIStream \<Rightarrow> string" where
  "GetValue sectionName keyName defaultValue st =
     (case find (\<lambda>s. mSectionName s = ToLower sectionName) (mData st) of
        None \<Rightarrow> defaultValue
      | Some sec \<Rightarrow>
          (case find (\<lambda>d. mKey d = ToLower (ToLower keyName)) (mKeyValuePairs sec) of
             None \<Rightarrow> defaultValue
           | Some d \<Rightarrow> mValue d))"

definition SetValue :: "string \<Rightarrow> string \<Rightarrow> string \<Rightarrow> bool \<Rightarrow> havINIStream \<Rightarrow> bool \<times> havINIStream" where
  "SetValue sectionName0 keyName0 val addQuotes st =
     (let sectionName = ToLower sectionName0;
          keyName = ToLower keyName0
      in case find (\<lambda>s. mSectionName s = sectionName) (mData st) of
           Some sectionEntry \<Rightarrow>
             (if has_key (ToLower keyName) (mKeyValuePairs sectionEntry) then
                (True, st\<lparr> mData :=
                   update_first (\<lambda>s. mSectionName s = sectionName)
                     (\<lambda>s. s\<lparr> mKeyValuePairs :=
                            update_first (\<lambda>d. mKey d = ToLower keyName)
                              (\<lambda>d. Data_SetAddQuotes addQuotes (Data_SetValue val d))
                              (mKeyValuePairs s) \<rparr>)
                     (mData st) \<rparr>)
              else
                (True, st\<lparr> mData :=
                   update_first (\<lambda>s. mSectionName s = sectionName)
                     (Section_SetKeyValuePair keyName val addQuotes) (mData st) \<rparr>))
         | None \<Rightarrow>
             (True, st\<lparr> mData := mData st @ [Section_SetKeyValuePair keyName val addQuotes
                                                (new_section sectionName)] \<rparr>))"

text \<open>
  \<open>SetEmptyLine\<close> and \<open>SetComment\<close> of a section: nothing happens when the key is taken;
  \<open>Above\<close> and \<open>Below\<close> look the other key up and throw when it is missing
  (\<open>otherKeyName.value()\<close> on an empty optional throws \<open>bad_optional_access\<close>).
\<close>

definition insert_at :: "nat \<Rightarrow> 'a \<Rightarrow> 'a list \<Rightarrow> 'a list" where
  "insert_at i x xs = take i xs @ [x] @ drop i xs"

fun index_of_key :: "string \<Rightarrow> havINIData list \<Rightarrow> nat option" where
  "index_of_key k [] = None"
| "index_of_key k (d # ds) =
     (if mKey d = k then Some 0 else map_option Suc (index_of_key k ds))"

definition insert_positioned ::
  "havINIData \<Rightarrow> havINIPosition \<Rightarrow> string option \<Rightarrow> havINIData list \<Rightarrow> exn + havINIData list" where
  "insert_positioned new position otherKeyName kvs =
     (case position of
        Start \<Rightarrow> Inr (new # kvs)
      | End \<Rightarrow> Inr (kvs @ [new])
      | Above \<Rightarrow>
          (case otherKeyName of
             None \<Rightarrow> Inl bad_optional_access
           | Some other \<Rightarrow>
               (case index_of_key other kvs of
                  None \<Rightarrow> Inl (runtime_error ([CHR 0x22] @ other @ [CHR 0x22] @ '' could not be found!''))
                | Some i \<Rightarrow> Inr (insert_at i new kvs)))
      | Below \<Rightarrow>
          (case otherKeyName of
             None \<Rightarrow> Inl bad_optional_access
           | Some other \<Rightarrow>
               (case index_of_key other kvs of
                  None \<Rightarrow> Inl (runtime_error ([CHR 0x22] @ other @ [CHR 0x22] @ '' could not be found!''))
                | Some i \<Rightarrow> Inr (insert_at (i + 1) new kvs))))"

definition Section_SetEmptyLine ::
  "string \<Rightarrow> havINIPosition \<Rightarrow> string option \<Rightarrow> havINISection \<Rightarrow> exn + (bool \<times> havINISection)" where
  "Section_SetEmptyLine key0 position otherKeyName0 s =
     (let key = ToLower key0; otherKeyName = map_option ToLower otherKeyName0 in
      if has_key key (mKeyValuePairs s) then Inr (False, s)
      else
        (case insert_positioned (new_data key [] Empty False) position otherKeyName (mKeyValuePairs s) of
           Inl e \<Rightarrow> Inl e
         | Inr kvs \<Rightarrow> Inr (True, s\<lparr> mKeyValuePairs := kvs \<rparr>)))"

definition Section_SetComment ::
  "string \<Rightarrow> string \<Rightarrow> havINIPosition \<Rightarrow> string option \<Rightarrow> havINISection
     \<Rightarrow> exn + (bool \<times> havINISection)" where
  "Section_SetComment key0 val position otherKeyName0 s =
     (let key = ToLower key0; otherKeyName = map_option ToLower otherKeyName0 in
      if has_key key (mKeyValuePairs s) then Inr (False, s)
      else
        (case insert_positioned (new_data key val Comment False) position otherKeyName (mKeyValuePairs s) of
           Inl e \<Rightarrow> Inl e
         | Inr kvs \<Rightarrow> Inr (True, s\<lparr> mKeyValuePairs := kvs \<rparr>)))"

text \<open>\<open>GetEmptyLineCount\<close> and \<open>GetCommentLineCount\<close> increment the counter and return it.\<close>

definition GetEmptyLineCount :: "havINISection \<Rightarrow> 32 word \<times> havINISection" where
  "GetEmptyLineCount s = (mEmptyLineCount s + 1, s\<lparr> mEmptyLineCount := mEmptyLineCount s + 1 \<rparr>)"

definition GetCommentLineCount :: "havINISection \<Rightarrow> 32 word \<times> havINISection" where
  "GetCommentLineCount s = (mCommentLineCount s + 1, s\<lparr> mCommentLineCount := mCommentLineCount s + 1 \<rparr>)"

subsection \<open>ParseFile, first part: size checks, byte-order mark, reading the content\<close>

text \<open>
  The file is the list of its bytes. \<open>byte_at\<close> is \<open>std::string::operator[]\<close>, which
  yields the terminating \<open>'\0'\<close> at index \<open>size()\<close>.
\<close>

definition byte_at :: "string \<Rightarrow> nat \<Rightarrow> char" where
  "byte_at s i = (if i < length s then s ! i else CHR 0x00)"

text \<open>The chain of comparisons on \<open>bomArray\<close>: the type and \<open>bytesToSkip\<close>.\<close>

definition match_BOM :: "string \<Rightarrow> havINIBOMType \<times> nat" where
  "match_BOM bytes =
     (let b0 = byte_at bytes 0; b1 = byte_at bytes 1; b2 = byte_at bytes 2; b3 = byte_at bytes 3
      in if b0 = CHR 0xFF \<and> b1 = CHR 0xFE \<and> b2 = CHR 0x00 \<and> b3 = CHR 0x00 then (UTF32LE, 4)
         else if b0 = CHR 0x00 \<and> b1 = CHR 0x00 \<and> b2 = CHR 0xFE \<and> b3 = CHR 0xFF then (UTF32BE, 4)
         else if b0 = CHR 0xFF \<and> b1 = CHR 0xFE then (UTF16LE, 2)
         else if b0 = CHR 0xFE \<and> b1 = CHR 0xFF then (UTF16BE, 2)
         else if b0 = CHR 0xEF \<and> b1 = CHR 0xBB \<and> b2 = CHR 0xBF then (UTF8, 3)
         else (None_BOM, 0))"

text \<open>The guess made from the zero bytes when no mark was found.\<close>

definition guess_encoding :: "string \<Rightarrow> havINIBOMType" where
  "guess_encoding bytes =
     (let b0 = byte_at bytes 0; b1 = byte_at bytes 1; b2 = byte_at bytes 2; b3 = byte_at bytes 3
      in if b0 \<noteq> CHR 0x00 \<and> b1 = CHR 0x00 \<and> b2 = CHR 0x00 \<and> b3 = CHR 0x00 then UTF32LE
         else if b0 = CHR 0x00 \<and> b1 = CHR 0x00 \<and> b2 = CHR 0x00 \<and> b3 \<noteq> CHR 0x00 then UTF32BE
         else if b0 \<noteq> CHR 0x00 \<and> b1 = CHR 0x00 \<and> b2 \<noteq> CHR 0x00 \<and> b3 = CHR 0x00 then UTF16LE
         else if b0 = CHR 0x00 \<and> b1 \<noteq> CHR 0x00 \<and> b2 = CHR 0x00 \<and> b3 \<noteq> CHR 0x00 then UTF16BE
         else None_BOM)"

definition detect_encoding :: "string \<Rightarrow> havINIBOMType \<times> nat" where
  "detect_encoding bytes =
     (case match_BOM bytes of
        (None_BOM, bytesToSkip) \<Rightarrow> (guess_encoding bytes, bytesToSkip)
      | (bomType, bytesToSkip) \<Rightarrow> (bomType, bytesToSkip))"

text \<open>
  The three reading loops; each \<open>fread\<close> takes one code unit (1, 2 or 4 bytes, in the byte
  order of the host) and the loop ends when a whole unit is no longer there.
\<close>

fun read_chars :: "nat \<Rightarrow> nat \<Rightarrow> string \<Rightarrow> string" where
  "read_chars bytesToSkip skippedBytes [] = []"
| "read_chars bytesToSkip skippedBytes (c # cs) =
     (if bytesToSkip > 0 \<and> skippedBytes < bytesToSkip
      then read_chars bytesToSkip (skippedBytes + 1) cs
      else c # read_chars bytesToSkip skippedBytes cs)"

definition char16 :: "char \<Rightarrow> char \<Rightarrow> 16 word" where
  "char16 a b = of_nat (of_char a + 256 * of_char b)"

definition char32 :: "char \<Rightarrow> char \<Rightarrow> char \<Rightarrow> char \<Rightarrow> 32 word" where
  "char32 a b c d = of_nat (of_char a + 256 * of_char b + 65536 * of_char c + 16777216 * of_char d)"

fun read_char16s :: "nat \<Rightarrow> nat \<Rightarrow> string \<Rightarrow> 16 word list" where
  "read_char16s bytesToSkip skippedBytes (a # b # cs) =
     (if bytesToSkip > 0 \<and> skippedBytes < bytesToSkip
      then read_char16s bytesToSkip (skippedBytes + 2) cs
      else char16 a b # read_char16s bytesToSkip skippedBytes cs)"
| "read_char16s bytesToSkip skippedBytes cs = []"

fun read_char32s :: "nat \<Rightarrow> nat \<Rightarrow> string \<Rightarrow> 32 word list" where
  "read_char32s bytesToSkip skippedBytes (a # b # c # d # cs) =
     (if bytesToSkip > 0 \<and> skippedBytes < bytesToSkip
      then read_char32s bytesToSkip (skippedBytes + 4) cs
      else char32 a b c d # read_char32s bytesToSkip skippedBytes cs)"
| "read_char32s bytesToSkip skippedBytes cs = []"

definition swap16 :: "16 word \<Rightarrow> 16 word" where
  "swap16 c = or (push_bit 8 (and c 0x00FF)) (drop_bit 8 (and c 0xFF00))"

definition swap32 :: "32 word \<Rightarrow> 32 word" where
  "swap32 c =
     or (or (or (push_bit 24 (and c 0x000000FF)) (push_bit 8 (and c 0x0000FF00)))
            (drop_bit 8 (and c 0x00FF0000)))
        (drop_bit 24 (and c 0xFF000000))"

text \<open>
  The conversion to UTF-8 is \<open>std::wstring_convert::to_bytes\<close> of the standard library, which
  is no part of the header: the two converters are parameters of the model.
\<close>

definition read_contents ::
  "(16 word list \<Rightarrow> exn + string) \<Rightarrow> (32 word list \<Rightarrow> exn + string) \<Rightarrow> string \<Rightarrow> exn + string" where
  "read_contents to_bytes16 to_bytes32 bytes =
     (case detect_encoding bytes of
        (None_BOM, bytesToSkip) \<Rightarrow> Inr (read_chars bytesToSkip 0 bytes)
      | (UTF8, bytesToSkip) \<Rightarrow> Inr (read_chars bytesToSkip 0 bytes)
      | (UTF16LE, bytesToSkip) \<Rightarrow> to_bytes16 (read_char16s bytesToSkip 0 bytes)
      | (UTF16BE, bytesToSkip) \<Rightarrow> to_bytes16 (map swap16 (read_char16s bytesToSkip 0 bytes))
      | (UTF32LE, bytesToSkip) \<Rightarrow> to_bytes32 (read_char32s bytesToSkip 0 bytes)
      | (UTF32BE, bytesToSkip) \<Rightarrow> to_bytes32 (map swap32 (read_char32s bytesToSkip 0 bytes)))"

subsection \<open>ParseFile, second part: lines and escape sequences\<close>

definition CodePointToString :: "nat \<Rightarrow> string" where
  "CodePointToString codePoint =
     takeWhile (\<lambda>c. c \<noteq> CHR 0x00)
       (if codePoint < 0x80 then [char_of codePoint]
        else if codePoint < 0x800 then
          [char_of (codePoint div 64 + 0xC0), char_of (codePoint mod 64 + 0x80)]
        else if codePoint < 0x10000 then
          [char_of (codePoint div 4096 + 0xE0), char_of ((codePoint div 64) mod 64 + 0x80),
           char_of (codePoint mod 64 + 0x80)]
        else if codePoint < 0x110000 then
          [char_of (codePoint div 262144 + 0xF0), char_of ((codePoint div 4096) mod 64 + 0x80),
           char_of ((codePoint div 64) mod 64 + 0x80), char_of (codePoint mod 64 + 0x80)]
        else [])"

definition hex_digit_val :: "char \<Rightarrow> nat" where
  "hex_digit_val c =
     (let n = (of_char c :: nat) in
      if 48 \<le> n \<and> n \<le> 57 then n - 48
      else if 65 \<le> n \<and> n \<le> 70 then n - 55
      else n - 87)"

text \<open>\<open>std::strtol(s, nullptr, 16)\<close> on a string of hexadecimal digits.\<close>

definition strtol16 :: "string \<Rightarrow> nat" where
  "strtol16 s = foldl (\<lambda>acc c. acc * 16 + hex_digit_val c) 0 s"

text \<open>
  The loop that reads up to four hexadecimal digits after \<open>\x\<close>; \<open>index\<close> points at the
  \<open>x\<close>. It throws at the end of the content, stops at the first other character (which is
  at \<open>index + 1 + length hexString\<close>), or returns the four digits.
\<close>

datatype hex4 = Beyond_End | Not_Hex string | Hex4 string

fun read_hex4 :: "nat \<Rightarrow> string \<Rightarrow> nat \<Rightarrow> string \<Rightarrow> hex4" where
  "read_hex4 0 fileContents index hexString = Hex4 hexString"
| "read_hex4 (Suc n) fileContents index hexString =
     (if index + 1 \<ge> length fileContents then Beyond_End
      else if \<not> isxdigit (fileContents ! (index + 1)) then Not_Hex hexString
      else read_hex4 n fileContents (index + 1) (hexString @ [fileContents ! (index + 1)]))"

text \<open>
  The loop over \<open>fileContents\<close>. Each call is one iteration at \<open>index\<close>; the index of the
  recursive call is the one the iteration leaves behind, plus the \<open>++index\<close> of the loop
  header. After a carriage return the code advances \<open>index\<close> and then looks at
  \<open>fileContents[index + 1]\<close>.
\<close>

function read_lines :: "string \<Rightarrow> nat \<Rightarrow> string \<Rightarrow> string list \<Rightarrow> exn + (string list \<times> string)" where
  "read_lines fileContents index line buffer =
     (if index \<ge> length fileContents then Inr (buffer, line)
      else
        let currentChar = fileContents ! index in
        if currentChar = CHR 0x0D then
          (if index + 1 \<ge> length fileContents then read_lines fileContents (index + 2) line buffer
           else if byte_at fileContents (index + 2) = CHR 0x0A then
             read_lines fileContents (index + 2) []
               (buffer @ [line @ [byte_at fileContents (index + 2)]])
           else read_lines fileContents (index + 2) [] (buffer @ [line @ [CHR 0x0A]]))
        else if currentChar = CHR 0x0A then
          read_lines fileContents (index + 1) [] (buffer @ [line @ [CHR 0x0A]])
        else if currentChar = CHR 0x5C then
          (if index + 1 \<ge> length fileContents then read_lines fileContents (index + 2) line buffer
           else if fileContents ! (index + 1) = CHR ''x'' then
             (case read_hex4 4 fileContents (index + 1) [] of
                Beyond_End \<Rightarrow>
                  Inl (runtime_error ''Read beyond end of file, and found invalid unicode escape sequence!'')
              | Not_Hex hexString \<Rightarrow>
                  read_lines fileContents (index + 2 + length hexString)
                    (line @ [CHR ''x''] @ hexString) buffer
              | Hex4 hexString \<Rightarrow>
                  (let codePoint = strtol16 hexString in
                   if byte_at fileContents (index + 6) = CHR 0x5C \<and> index + 6 < length fileContents then
                     (if byte_at fileContents (index + 7) = CHR ''x'' \<and> index + 7 < length fileContents then
                        (case read_hex4 4 fileContents (index + 7) [] of
                           Beyond_End \<Rightarrow>
                             Inl (runtime_error ''Read beyond end of file, and found invalid unicode escape sequence!'')
                         | Not_Hex hexString2 \<Rightarrow>
                             Inl (runtime_error ''Invalid code point for UTF-16 low surrogate pair!'')
                         | Hex4 hexString2 \<Rightarrow>
                             (if 0xD800 \<le> codePoint \<and> codePoint \<le> 0xDBFF then
                                (let secondCodePoint = strtol16 hexString2 in
                                 if 0xDC00 \<le> secondCodePoint \<and> secondCodePoint \<le> 0xDFFF then
                                   read_lines fileContents (index + 12)
                                     (line @ CodePointToString
                                        (0x10000 + (codePoint - 0xD800) * 0x400 + (secondCodePoint - 0xDC00)))
                                     buffer
                                 else Inl (runtime_error ''Invalid code point range for UTF-16 low surrogate pair!''))
                              else read_lines fileContents (index + 6)
                                     (line @ CodePointToString codePoint) buffer))
                      else read_lines fileContents (index + 6) (line @ CodePointToString codePoint) buffer)
                   else read_lines fileContents (index + 6) (line @ CodePointToString codePoint) buffer))
           else Inl (runtime_error ''Invalid escape character!''))
        else read_lines fileContents (index + 1) (line @ [currentChar]) buffer)"
  by pat_completeness auto
termination
  by (relation "measure (\<lambda>(fileContents, index, line, buffer). length fileContents - index)") auto

declare read_lines.simps [simp del]

text \<open>The loop from index 0, and the line left over at the end of the content.\<close>

definition segment_lines :: "string \<Rightarrow> exn + string list" where
  "segment_lines fileContents =
     (case read_lines fileContents 0 [] [] of
        Inl e \<Rightarrow> Inl e
      | Inr (buffer, line) \<Rightarrow>
          Inr (if line \<noteq> [] then buffer @ [line @ [CHR 0x0A]] else buffer))"

subsection \<open>ParseFile, third part: the line parser\<close>

text \<open>
  The local variables of \<open>ParseFile\<close> that live across lines, the sections built so far, and
  what was written to \<open>std::cout\<close> about errors.
\<close>

record pstate =
  errorMessage :: string
  sectionName :: string
  keyName :: string
  pvalue :: string
  inlineComment :: string
  newSection :: bool
  newKey :: bool
  newValue :: bool
  hasInlineComment :: bool
  stringValue :: bool
  arrayIndex :: string
  isArrayKey :: bool
  hasArrayIndex :: bool
  pData :: "havINISection list"
  printed :: "string list"

definition init_pstate :: "havINISection list \<Rightarrow> pstate" where
  "init_pstate sections =
     \<lparr> errorMessage = [], sectionName = ''hi_global'', keyName = [], pvalue = [],
       inlineComment = [], newSection = False, newKey = True, newValue = False,
       hasInlineComment = False, stringValue = False, arrayIndex = [], isArrayKey = False,
       hasArrayIndex = False, pData = sections, printed = [] \<rparr>"

definition add_error :: "string \<Rightarrow> pstate \<Rightarrow> pstate" where
  "add_error msg st = st\<lparr> errorMessage := errorMessage st @ msg @ [CHR 0x0A] \<rparr>"

definition is_comment_char :: "char \<Rightarrow> bool" where
  "is_comment_char c = (c = CHR '';'' \<or> c = CHR ''#'')"

definition is_quote_char :: "char \<Rightarrow> bool" where
  "is_quote_char c = (c = CHR 0x22 \<or> c = CHR 0x27)"

text \<open>
  The loops of the parser walk a line by \<open>characterIndex\<close> up to a character that is known to
  be in it; they are written over the rest of the line from \<open>characterIndex\<close> on.
  \<open>next_is c rest\<close> is \<open>line[characterIndex] == c\<close> after \<open>++characterIndex\<close>.
\<close>

definition next_is :: "char \<Rightarrow> string \<Rightarrow> bool" where
  "next_is c rest = (case rest of [] \<Rightarrow> c = CHR 0x00 | d # ds \<Rightarrow> d = c)"

text \<open>Removing white space outside quotes and comments.\<close>

fun remove_whitespace :: "bool \<Rightarrow> bool \<Rightarrow> string \<Rightarrow> string" where
  "remove_whitespace commentSection valueSection [] = []"
| "remove_whitespace commentSection valueSection (c # cs) =
     (let commentSection' = (commentSection \<or> is_comment_char c);
          valueSection' = (if is_quote_char c then \<not> valueSection else valueSection)
      in (if \<not> commentSection' \<and> \<not> valueSection' then (if isspace c then [] else [c]) else [c])
         @ remove_whitespace commentSection' valueSection' cs)"

text \<open>\<open>std::string::find\<close> of one character.\<close>

definition find_char :: "char \<Rightarrow> string \<Rightarrow> nat option" where
  "find_char c s = (if c \<in> set s then Some (length (takeWhile (\<lambda>x. x \<noteq> c) s)) else None)"

text \<open>
  The loop that counts \<open>allQuoteCharacters\<close>: it looks for a double quote, then for a single
  quote after it, and counts each such pair; the search starts at index 1.
\<close>

fun count_quote_pairs :: "bool \<Rightarrow> string \<Rightarrow> nat" where
  "count_quote_pairs wantDouble [] = 0"
| "count_quote_pairs wantDouble (c # cs) =
     (if wantDouble then (if c = CHR 0x22 then count_quote_pairs False cs else count_quote_pairs True cs)
      else (if c = CHR 0x27 then 1 + count_quote_pairs True cs else count_quote_pairs False cs))"

definition allQuoteCharacters :: "string \<Rightarrow> nat" where
  "allQuoteCharacters line = count_quote_pairs True (drop 1 line)"

subsubsection \<open>Empty lines and comments\<close>

definition parse_empty_line :: "pstate \<Rightarrow> exn + pstate" where
  "parse_empty_line st =
     (let name = ToLower (sectionName st) in
      if \<not> has_section name (pData st) then
        (case GetEmptyLineCount (new_section (sectionName st)) of (emptyLineCount, sec) \<Rightarrow>
           (case Section_SetEmptyLine (''hi_el_'' @ to_string (unat emptyLineCount)) End None sec of
              Inl e \<Rightarrow> Inl e
            | Inr (b, sec') \<Rightarrow> Inr (st\<lparr> pData := pData st @ [sec'] \<rparr>)))
      else
        (case update_first_exn (\<lambda>s. mSectionName s = name)
                (\<lambda>s. case GetEmptyLineCount s of (emptyLineCount, sec) \<Rightarrow>
                   (case Section_SetEmptyLine (''hi_el_'' @ to_string (unat emptyLineCount)) End None sec of
                      Inl e \<Rightarrow> Inl e
                    | Inr (b, sec') \<Rightarrow> Inr sec'))
                (pData st) of
           Inl e \<Rightarrow> Inl e
         | Inr secs \<Rightarrow> Inr (st\<lparr> pData := secs \<rparr>)))"

definition comment_text :: "string \<Rightarrow> string" where
  "comment_text line =
     (let l1 = (if line \<noteq> [] \<and> is_comment_char (hd line) then tl line else line);
          l2 = (if l1 \<noteq> [] \<and> hd l1 = CHR '' '' then tl l1 else l1)
      in if l2 \<noteq> [] \<and> last l2 = CHR 0x0A then butlast l2 else l2)"

definition parse_comment_line :: "pstate \<Rightarrow> string \<Rightarrow> exn + pstate" where
  "parse_comment_line st line0 =
     (let line = comment_text line0; name = ToLower (sectionName st) in
      if \<not> has_section name (pData st) then
        (case GetCommentLineCount (new_section (sectionName st)) of (commentLineCount, sec) \<Rightarrow>
           (case Section_SetComment (''hi_c_'' @ to_string (unat commentLineCount)) line End None sec of
              Inl e \<Rightarrow> Inl e
            | Inr (b, sec') \<Rightarrow> Inr (st\<lparr> pData := pData st @ [sec'] \<rparr>)))
      else
        (case update_first_exn (\<lambda>s. mSectionName s = name)
                (\<lambda>s. case GetCommentLineCount s of (commentLineCount, sec) \<Rightarrow>
                   (case Section_SetComment (''hi_c_'' @ to_string (unat commentLineCount)) line End None sec of
                      Inl e \<Rightarrow> Inl e
                    | Inr (b, sec') \<Rightarrow> Inr sec'))
                (pData st) of
           Inl e \<Rightarrow> Inl e
         | Inr secs \<Rightarrow> Inr (st\<lparr> pData := secs \<rparr>)))"

subsubsection \<open>Section headers\<close>

definition strip_one_space :: "string \<Rightarrow> string" where
  "strip_one_space s = (if s \<noteq> [] \<and> hd s = CHR '' '' then tl s else s)"

text \<open>
  A loop body ends in \<open>continue\<close> (or falls through to the next round) or in \<open>break\<close>.
\<close>

datatype 'a step = Continue 'a | Break 'a

definition section_step :: "bool \<Rightarrow> pstate \<Rightarrow> char \<Rightarrow> string \<Rightarrow> pstate step" where
  "section_step atStart st c rest =
     (if c = CHR ''['' \<and> \<not> atStart then Break (add_error ''New section started within section tag!'' st)
      else if c = CHR ''['' then Continue st
      else if c = CHR '' '' then Continue st
      else if c = CHR '']'' then Continue (st\<lparr> newSection := False \<rparr>)
      else if is_comment_char c then
        (if newSection st then Break (add_error ''Found comment tag within section tag!'' st)
         else
           (let sectionInlineComment = strip_one_space (takeWhile (\<lambda>x. x \<noteq> CHR 0x0A) rest);
                name = ToLower (sectionName st)
            in Break (st\<lparr> sectionName := name,
                   pData :=
                     (if \<not> has_section (ToLower name) (pData st)
                      then pData st @ [Section_SetInlineComment sectionInlineComment (new_section name)]
                      else update_first (\<lambda>s. mSectionName s = ToLower name)
                             (Section_SetInlineComment sectionInlineComment) (pData st)) \<rparr>)))
      else Continue (st\<lparr> sectionName := sectionName st @ [c] \<rparr>))"

fun section_loop :: "bool \<Rightarrow> pstate \<Rightarrow> string \<Rightarrow> pstate" where
  "section_loop atStart st [] = st"
| "section_loop atStart st (c # rest) =
     (if c = CHR 0x0A then st
      else (case section_step atStart st c rest of
              Break st' \<Rightarrow> st'
            | Continue st' \<Rightarrow> section_loop False st' rest))"

definition parse_section_line :: "pstate \<Rightarrow> string \<Rightarrow> pstate" where
  "parse_section_line st0 line =
     (let st1 = section_loop True
                  (st0\<lparr> newSection := True, newKey := False, newValue := False,
                        stringValue := False, sectionName := [] \<rparr>) line;
          st2 = (if newSection st1 then add_error ''Section end tag was not found!'' st1 else st1);
          st3 = (if errorMessage st2 = [] then st2\<lparr> newKey := True \<rparr> else st2)
      in st3\<lparr> sectionName := ToLower (sectionName st3) \<rparr>)"

subsubsection \<open>Keys\<close>

text \<open>The delimiter that comes first in the line, and where it is.\<close>

definition endCharacter_of :: "string \<Rightarrow> char" where
  "endCharacter_of line =
     (case (find_char CHR ''='' line, find_char CHR '':'' line) of
        (Some foundCharacter, Some foundCharacter2) \<Rightarrow>
          (if foundCharacter > foundCharacter2 then CHR '':'' else CHR ''='')
      | (Some foundCharacter, None) \<Rightarrow> CHR ''=''
      | (None, Some foundCharacter2) \<Rightarrow> CHR '':''
      | (None, None) \<Rightarrow> CHR 0x00)"

definition value_start :: "string \<Rightarrow> nat \<Rightarrow> nat" where
  "value_start line characterIndex =
     (case (find_char CHR ''='' line, find_char CHR '':'' line) of
        (Some foundCharacter, Some foundCharacter2) \<Rightarrow>
          (if foundCharacter > foundCharacter2 then foundCharacter2 + 1 else foundCharacter + 1)
      | (Some foundCharacter, None) \<Rightarrow> foundCharacter + 1
      | (None, Some foundCharacter2) \<Rightarrow> foundCharacter2 + 1
      | (None, None) \<Rightarrow> characterIndex)"

definition no_delimiter :: "string \<Rightarrow> bool" where
  "no_delimiter line = (find_char CHR ''='' line = None \<and> find_char CHR '':'' line = None)"

definition key_step :: "char \<Rightarrow> pstate \<Rightarrow> char \<Rightarrow> string \<Rightarrow> pstate step" where
  "key_step endCharacter st c rest =
     (if c = CHR '' '' then
        Continue (if next_is endCharacter rest then st\<lparr> newKey := False \<rparr> else st)
      else if \<not> isArrayKey st \<and> c = CHR ''['' then
        Break (add_error ''Start section tag within key tag!'' st)
      else if \<not> isArrayKey st \<and> c = CHR '']'' then
        Break (add_error ''Close section tag within key tag!'' st)
      else if isArrayKey st \<and> c = CHR ''['' then Break (st\<lparr> newKey := False \<rparr>)
      else if is_comment_char c then Break (add_error ''Found comment tag within key tag!'' st)
      else
        (let st1 = st\<lparr> keyName := keyName st @ [c] \<rparr>
         in Continue (if next_is endCharacter rest then st1\<lparr> newKey := False \<rparr> else st1)))"

fun key_loop :: "char \<Rightarrow> pstate \<Rightarrow> string \<Rightarrow> pstate \<times> string" where
  "key_loop endCharacter st [] = (st, [])"
| "key_loop endCharacter st (c # rest) =
     (if c = endCharacter then (st, c # rest)
      else (case key_step endCharacter st c rest of
              Break st' \<Rightarrow> (st', c # rest)
            | Continue st' \<Rightarrow> key_loop endCharacter st' rest))"

definition classify_key :: "string \<Rightarrow> pstate \<Rightarrow> pstate" where
  "classify_key fullKey st =
     (if EndsWith fullKey ''[]'' then st\<lparr> isArrayKey := True, hasArrayIndex := False \<rparr>
      else if \<not> StartsWith fullKey ''['' \<and> EndsWith fullKey '']'' \<and> CHR ''['' \<in> set fullKey then
        st\<lparr> arrayIndex := butlast (case Split fullKey CHR ''['' of a # b # r \<Rightarrow> b | _ \<Rightarrow> []),
            isArrayKey := True, hasArrayIndex := True \<rparr>
      else st\<lparr> isArrayKey := False, hasArrayIndex := False \<rparr>)"

text \<open>
  The block under \<open>if (newKey == true)\<close>. It returns the state and the rest of the line at
  \<open>characterIndex\<close>, which the value block uses only when the line holds no delimiter.
\<close>

definition parse_key :: "pstate \<Rightarrow> string \<Rightarrow> pstate \<times> string" where
  "parse_key st0 line =
     (let st1 = st0\<lparr> keyName := [] \<rparr>;
          st2 = (if no_delimiter line then add_error ([CHR ''N'', CHR ''o'', CHR '' '', CHR 0x22, CHR ''='', CHR 0x22] @ '' or '' @ [CHR 0x22, CHR '':'', CHR 0x22] @ '' sign found!'') st1 else st1);
          endCharacter = endCharacter_of line
      in if errorMessage st2 \<noteq> [] then (st2, line)
         else
           (let st3 = classify_key (hd (Split line endCharacter)) st2;
                (st4, rest) = key_loop endCharacter st3 line;
                st5 = (if newKey st4
                       then add_error (''Key end tag ('' @ [CHR 0x22, endCharacter, CHR 0x22] @ '' sign) was not found!'') st4
                       else st4)
            in if errorMessage st5 = []
               then (st5\<lparr> keyName := ToLower (keyName st5), newKey := False, newValue := True \<rparr>, rest)
               else (st5, rest)))"

subsubsection \<open>Values\<close>

text \<open>The locals of the value loop: \<open>currentQuoteCharacter\<close>, \<open>addQuotes\<close>, and the state.\<close>

definition value_step ::
  "nat \<Rightarrow> nat \<times> bool \<times> pstate \<Rightarrow> char \<Rightarrow> string \<Rightarrow> (nat \<times> bool \<times> pstate) step" where
  "value_step allQuotes v c rest =
     (case v of (currentQuoteCharacter, addQuotes, st) \<Rightarrow>
      if c = CHR '' '' \<and> \<not> stringValue st then
        Continue (currentQuoteCharacter, addQuotes,
                  if next_is CHR 0x0A rest then st\<lparr> newValue := False \<rparr> else st)
      else if c = CHR ''['' then
        Break (currentQuoteCharacter, addQuotes, add_error ''Start section tag within value tag!'' st)
      else if c = CHR '']'' then
        Break (currentQuoteCharacter, addQuotes, add_error ''Close section tag within value tag!'' st)
      else if allQuotes > 2 \<and> is_quote_char c \<and> \<not> stringValue st \<and> currentQuoteCharacter = 0 then
        Continue (currentQuoteCharacter + 1, addQuotes, st\<lparr> stringValue := True \<rparr>)
      else
        (let cq = (if allQuotes > 2 \<and> is_quote_char c \<and> stringValue st \<and> currentQuoteCharacter < allQuotes
                   then currentQuoteCharacter + 1 else currentQuoteCharacter)
         in if allQuotes > 2 \<and> is_quote_char c \<and> stringValue st \<and> cq = allQuotes then
              Continue (cq + 1, True, st\<lparr> stringValue := False \<rparr>)
            else if \<not> allQuotes > 2 \<and> is_quote_char c \<and> \<not> stringValue st then
              Continue (cq, addQuotes, st\<lparr> stringValue := True \<rparr>)
            else if \<not> allQuotes > 2 \<and> is_quote_char c \<and> stringValue st then
              Continue (cq, True, st\<lparr> stringValue := False \<rparr>)
            else if \<not> stringValue st \<and> is_comment_char c then
              Break (cq, addQuotes,
                 st\<lparr> hasInlineComment := True,
                     inlineComment := strip_one_space (inlineComment st @ takeWhile (\<lambda>x. x \<noteq> CHR 0x0A) rest),
                     newValue := False \<rparr>)
            else
              (let st1 = st\<lparr> pvalue := pvalue st @ [c] \<rparr>
               in if next_is CHR 0x0A rest \<and> stringValue st then
                    Break (cq, addQuotes, add_error ''String end tag not defined!'' st1)
                  else Continue (cq, addQuotes,
                         if next_is CHR 0x0A rest then st1\<lparr> newValue := False \<rparr> else st1))))"

fun value_loop :: "nat \<Rightarrow> nat \<times> bool \<times> pstate \<Rightarrow> string \<Rightarrow> nat \<times> bool \<times> pstate" where
  "value_loop allQuotes v [] = v"
| "value_loop allQuotes v (c # rest) =
     (if c = CHR 0x0A then v
      else (case value_step allQuotes v c rest of
              Break v' \<Rightarrow> v'
            | Continue v' \<Rightarrow> value_loop allQuotes v' rest))"

text \<open>Storing the pair or the array element in the current section, which is made when missing.\<close>

definition store_entry :: "bool \<Rightarrow> string \<Rightarrow> pstate \<Rightarrow> havINISection \<Rightarrow> exn + havINISection" where
  "store_entry addQuotes newInlineComment st sec =
     (if isArrayKey st then
        Section_SetArrayEntry (keyName st) (pvalue st) addQuotes (hasInlineComment st) newInlineComment
          (arrayIndex st) (hasArrayIndex st) sec
      else
        (let sec1 = Section_SetKeyValuePair (keyName st) (pvalue st) addQuotes sec
         in Inr (sec1\<lparr> mKeyValuePairs :=
                   update_first (\<lambda>d. mKey d = ToLower (keyName st))
                     (Data_SetInlineComment newInlineComment) (mKeyValuePairs sec1) \<rparr>)))"

definition insert_entry :: "bool \<Rightarrow> pstate \<Rightarrow> exn + pstate" where
  "insert_entry addQuotes st =
     (let newInlineComment = (if hasInlineComment st then inlineComment st else []);
          name = ToLower (sectionName st)
      in case (if \<not> has_section name (pData st) then
                 (case store_entry addQuotes newInlineComment st (new_section (sectionName st)) of
                    Inl e \<Rightarrow> Inl e
                  | Inr sec \<Rightarrow> Inr (pData st @ [sec]))
               else update_first_exn (\<lambda>s. mSectionName s = name)
                      (store_entry addQuotes newInlineComment st) (pData st)) of
           Inl e \<Rightarrow> Inl e
         | Inr secs \<Rightarrow>
             Inr (st\<lparr> pData := secs, newValue := False, hasInlineComment := False,
                      inlineComment := [], newKey := True \<rparr>))"

text \<open>The block under \<open>if (newValue == true)\<close>; \<open>rest\<close> is the line at \<open>characterIndex\<close>.\<close>

definition parse_value :: "pstate \<Rightarrow> string \<Rightarrow> string \<Rightarrow> exn + pstate" where
  "parse_value st0 line rest =
     (let st1 = st0\<lparr> pvalue := [] \<rparr>;
          st2 = (if no_delimiter line then add_error ([CHR ''N'', CHR ''o'', CHR '' '', CHR 0x22, CHR ''='', CHR 0x22] @ '' or '' @ [CHR 0x22, CHR '':'', CHR 0x22] @ '' sign found!'') st1 else st1);
          fromValue = drop (value_start line (length line - length rest)) line
      in if errorMessage st2 \<noteq> [] then Inr st2
         else
           (case value_loop (allQuoteCharacters line) (0, False, st2) fromValue of
              (currentQuoteCharacter, addQuotes, st3) \<Rightarrow>
                (let st4 = (if newValue st3 \<and> stringValue st3
                            then add_error ''Value end tag (New line) was not found!'' st3 else st3)
                 in if errorMessage st4 = [] then insert_entry addQuotes st4 else Inr st4)))"

subsubsection \<open>One line, all lines, the whole file\<close>

definition parse_line :: "pstate \<Rightarrow> string \<Rightarrow> exn + pstate" where
  "parse_line st line0 =
     (let tmpLine = remove_whitespace False False line0 in
      if tmpLine = [] then parse_empty_line st
      else
        (let line = (if last tmpLine \<noteq> CHR 0x0A then tmpLine @ [CHR 0x0A] else tmpLine) in
         if is_comment_char (hd line) then parse_comment_line st line
         else if hd line = CHR ''['' then Inr (parse_section_line st line)
         else
           (case (if newKey st then parse_key st line else (st, line)) of
              (st1, rest) \<Rightarrow> if newValue st1 then parse_value st1 line rest else Inr st1)))"

text \<open>
  The loop over the lines: an error message left by the line before is printed and ends the
  loop.
\<close>

fun parse_lines :: "pstate \<Rightarrow> string list \<Rightarrow> exn + pstate" where
  "parse_lines st [] = Inr st"
| "parse_lines st (line # buffer) =
     (if errorMessage st \<noteq> [] then
        Inr (st\<lparr> printed := printed st @ [errorMessage st], errorMessage := [] \<rparr>)
      else
        (case parse_line st line of
           Inl e \<Rightarrow> Inl e
         | Inr st' \<Rightarrow> parse_lines st' buffer))"

definition finish_parse :: "pstate \<Rightarrow> pstate" where
  "finish_parse st0 =
     (let st = (if errorMessage st0 \<noteq> []
                then st0\<lparr> printed := printed st0 @ [errorMessage st0], errorMessage := [] \<rparr> else st0)
      in if \<not> has_section (ToLower (sectionName st)) (pData st)
         then st\<lparr> pData := pData st @ [new_section (sectionName st)] \<rparr> else st)"

text \<open>
  \<open>ParseFile\<close>. The file is \<open>None\<close> when it cannot be opened, else its bytes. The result
  is the return value, the stream and what was printed about errors; an exception is \<open>Inl\<close>.
\<close>

definition ParseFile ::
  "(16 word list \<Rightarrow> exn + string) \<Rightarrow> (32 word list \<Rightarrow> exn + string) \<Rightarrow> string option
     \<Rightarrow> havINIStream \<Rightarrow> exn + (bool \<times> havINIStream \<times> string list)" where
  "ParseFile to_bytes16 to_bytes32 file stream =
     (case file of
        None \<Rightarrow> Inr (False, stream, [''Unable to open INI file''])
      | Some bytes \<Rightarrow>
          if length bytes = 0 then Inr (False, stream, [''INI file is empty!''])
          else if length bytes < 6 then Inr (False, stream, [''INI file cannot be smaller than 6 bytes!''])
          else
            (case read_contents to_bytes16 to_bytes32 bytes of
               Inl e \<Rightarrow> Inl e
             | Inr fileContents \<Rightarrow>
                 (case segment_lines fileContents of
                    Inl e \<Rightarrow> Inl e
                  | Inr buffer \<Rightarrow>
                      (case parse_lines (init_pstate (mData stream)) buffer of
                         Inl e \<Rightarrow> Inl e
                       | Inr st \<Rightarrow>
                           Inr (True, stream\<lparr> mData := pData (finish_parse st) \<rparr>,
                                printed (finish_parse st))))))"

subsection \<open>ConvertToEscapedString and WriteFile\<close>

definition hex_char :: "nat \<Rightarrow> char" where
  "hex_char d = (if d < 10 then char_of (48 + d) else char_of (87 + d))"

function hex_digits :: "nat \<Rightarrow> string" where
  "hex_digits n = (if n < 16 then [hex_char n] else hex_digits (n div 16) @ [hex_char (n mod 16)])"
  by pat_completeness auto
termination
  by (relation "measure id") auto

declare hex_digits.simps [simp del]

text \<open>\<open>std::hex << std::setw(4) << std::setfill('0')\<close>: at least four digits.\<close>

definition hex4_string :: "nat \<Rightarrow> string" where
  "hex4_string n = replicate (4 - length (hex_digits n)) CHR ''0'' @ hex_digits n"

text \<open>
  The continuation bytes of a UTF-8 sequence: \<open>None\<close> stands for the throw on a byte that
  is no continuation byte, the end of the string included.
\<close>

fun read_continuation :: "nat \<Rightarrow> nat \<Rightarrow> string \<Rightarrow> nat option" where
  "read_continuation 0 codePoint s = Some codePoint"
| "read_continuation (Suc n) codePoint [] = None"
| "read_continuation (Suc n) codePoint (c # cs) =
     (if (of_char c :: nat) div 64 \<noteq> 2 then None
      else read_continuation n (codePoint * 64 + (of_char c :: nat) mod 64) cs)"

definition write_hex :: "nat \<Rightarrow> string" where
  "write_hex codePoint =
     (if 0x10000 \<le> codePoint \<and> codePoint \<le> 0x10FFFF then
        [CHR 0x5C, CHR ''x''] @ hex4_string ((codePoint - 0x10000) div 0x400 + 0xD800) @
        [CHR 0x5C, CHR ''x''] @ hex4_string ((codePoint - 0x10000) mod 0x400 + 0xDC00)
      else [CHR 0x5C, CHR ''x''] @ hex4_string codePoint)"

text \<open>
  What one round of the loop appends and how many further bytes it consumes, for a character
  that has no named escape.
\<close>

definition escape_default :: "char \<Rightarrow> string \<Rightarrow> exn + (string \<times> nat)" where
  "escape_default c rest =
     (let n = (of_char c :: nat) in
      if n < 0x80 then Inr (if n < 0x1F then write_hex n else [c], 0)
      else
        (case (if n div 32 = 6 then Some (2, n mod 32)
               else if n div 16 = 14 then Some (3, n mod 16)
               else if n div 8 = 30 then Some (4, n mod 8)
               else None) of
           None \<Rightarrow> Inl (runtime_error ''Invalid UTF-8 sequence!'')
         | Some (numOfBytes, codePoint) \<Rightarrow>
             (case read_continuation (numOfBytes - 1) codePoint (take (numOfBytes - 1) rest) of
                None \<Rightarrow> Inl (runtime_error ''Invalid UTF-8 sequence!'')
              | Some codePoint' \<Rightarrow> Inr (write_hex codePoint', numOfBytes - 1))))"

definition named_escape :: "char \<Rightarrow> string option" where
  "named_escape c =
     (if c = CHR 0x22 then Some [CHR 0x5C, CHR 0x22]
      else if c = CHR 0x5C then Some [CHR 0x5C, CHR 0x5C]
      else if c = CHR 0x08 then Some [CHR 0x5C, CHR ''b'']
      else if c = CHR 0x0C then Some [CHR 0x5C, CHR ''f'']
      else if c = CHR 0x0A then Some [CHR 0x5C, CHR ''n'']
      else if c = CHR 0x0D then Some [CHR 0x5C, CHR ''r'']
      else if c = CHR 0x09 then Some [CHR 0x5C, CHR ''t'']
      else if c = CHR 0x0B then Some [CHR 0x5C, CHR ''v'']
      else None)"

function ConvertToEscapedString :: "string \<Rightarrow> exn + string" where
  "ConvertToEscapedString [] = Inr []"
| "ConvertToEscapedString (c # rest) =
     (case named_escape c of
        Some e \<Rightarrow> (case ConvertToEscapedString rest of Inl x \<Rightarrow> Inl x | Inr r \<Rightarrow> Inr (e @ r))
      | None \<Rightarrow>
          (case escape_default c rest of
             Inl x \<Rightarrow> Inl x
           | Inr (e, used) \<Rightarrow>
               (case ConvertToEscapedString (drop used rest) of
                  Inl x \<Rightarrow> Inl x
                | Inr r \<Rightarrow> Inr (e @ r))))"
  by pat_completeness auto
termination
  by (relation "measure length") auto

text \<open>
  \<open>WriteStringToFile\<close>: the bytes one call appends to the file. The conversions from UTF-8
  are \<open>std::wstring_convert::from_bytes\<close> of the standard library and are parameters.
\<close>

definition bytes_of16 :: "16 word \<Rightarrow> string" where
  "bytes_of16 w = [char_of (unat w mod 256), char_of (unat w div 256)]"

definition bytes_of32 :: "32 word \<Rightarrow> string" where
  "bytes_of32 w =
     [char_of (unat w mod 256), char_of (unat w div 256 mod 256),
      char_of (unat w div 65536 mod 256), char_of (unat w div 16777216)]"

definition WriteStringToFile ::
  "(string \<Rightarrow> exn + 16 word list) \<Rightarrow> (string \<Rightarrow> exn + 32 word list) \<Rightarrow> havINIBOMType
     \<Rightarrow> string \<Rightarrow> exn + string" where
  "WriteStringToFile from_bytes16 from_bytes32 bomType v =
     (case bomType of
        None_BOM \<Rightarrow> Inr v
      | UTF8 \<Rightarrow> Inr v
      | UTF16LE \<Rightarrow>
          (case from_bytes16 v of Inl e \<Rightarrow> Inl e | Inr u \<Rightarrow> Inr (concat (map bytes_of16 u)))
      | UTF16BE \<Rightarrow>
          (case from_bytes16 v of Inl e \<Rightarrow> Inl e | Inr u \<Rightarrow> Inr (concat (map (bytes_of16 \<circ> swap16) u)))
      | UTF32LE \<Rightarrow>
          (case from_bytes32 v of Inl e \<Rightarrow> Inl e | Inr u \<Rightarrow> Inr (concat (map bytes_of32 u)))
      | UTF32BE \<Rightarrow>
          (case from_bytes32 v of Inl e \<Rightarrow> Inl e | Inr u \<Rightarrow> Inr (concat (map (bytes_of32 \<circ> swap32) u))))"

definition BOM_bytes :: "havINIBOMType \<Rightarrow> string" where
  "BOM_bytes bomType =
     (case bomType of
        None_BOM \<Rightarrow> []
      | UTF8 \<Rightarrow> [CHR 0xEF, CHR 0xBB, CHR 0xBF]
      | UTF16LE \<Rightarrow> [CHR 0xFF, CHR 0xFE]
      | UTF16BE \<Rightarrow> [CHR 0xFE, CHR 0xFF]
      | UTF32LE \<Rightarrow> [CHR 0xFF, CHR 0xFE, CHR 0x00, CHR 0x00]
      | UTF32BE \<Rightarrow> [CHR 0x00, CHR 0x00, CHR 0xFE, CHR 0xFF])"

text \<open>The text of an inline comment, of a value with its quotes, and of the lines of an entry.\<close>

definition render_inline_comment :: "havINIStream \<Rightarrow> bool \<Rightarrow> string option \<Rightarrow> exn + string" where
  "render_inline_comment stream formatted ic =
     (case ic of
        None \<Rightarrow> Inr []
      | Some text \<Rightarrow>
          (case ConvertToEscapedString text of
             Inl e \<Rightarrow> Inl e
           | Inr t \<Rightarrow> Inr ((if formatted then '' '' else []) @ [mCommentCharacter stream] @ '' '' @ t)))"

definition render_value :: "havINIStream \<Rightarrow> havINIData \<Rightarrow> exn + string" where
  "render_value stream d =
     (case ConvertToEscapedString (mValue d) of
        Inl e \<Rightarrow> Inl e
      | Inr v \<Rightarrow>
          Inr (if mAddQuotes d then [mValueQuoteCharacter stream] @ v @ [mValueQuoteCharacter stream]
               else v))"

definition render_delimiter :: "havINIStream \<Rightarrow> bool \<Rightarrow> string" where
  "render_delimiter stream formatted =
     (if formatted then '' '' else []) @ [mKeyValuePairDelimiter stream] @ (if formatted then '' '' else [])"

text \<open>One element of an array entry: the string handed to \<open>WriteStringToFile\<close>.\<close>

definition render_array_element ::
  "havINIStream \<Rightarrow> bool \<Rightarrow> string \<Rightarrow> havINIData \<Rightarrow> bool \<Rightarrow> havINIData \<Rightarrow> exn + string" where
  "render_array_element stream formatted newline entry lastOfAll element =
     (case render_value stream element of
        Inl e \<Rightarrow> Inl e
      | Inr v \<Rightarrow>
          (case ConvertToEscapedString (mKey entry) of
             Inl e \<Rightarrow> Inl e
           | Inr k \<Rightarrow>
               (case (if mHasArrayIndex entry then
                        (case ConvertToEscapedString (mKey element) of
                           Inl e \<Rightarrow> Inl e
                         | Inr i \<Rightarrow> Inr (newline @ k @ ''['' @ i @ '']''))
                      else Inr (newline @ k @ ''[]'')) of
                  Inl e \<Rightarrow> Inl e
                | Inr head \<Rightarrow>
                    (case render_inline_comment stream formatted (mInlineComment element) of
                       Inl e \<Rightarrow> Inl e
                     | Inr ic \<Rightarrow>
                         Inr (head @ render_delimiter stream formatted @ v @ ic
                              @ (if formatted \<and> lastOfAll then mNewline stream else []))))))"

fun render_array_elements ::
  "havINIStream \<Rightarrow> bool \<Rightarrow> string \<Rightarrow> havINIData \<Rightarrow> bool \<Rightarrow> havINIData list \<Rightarrow> exn + string list" where
  "render_array_elements stream formatted newline entry lastEntry [] = Inr []"
| "render_array_elements stream formatted newline entry lastEntry (element # elements) =
     (case render_array_element stream formatted newline entry (lastEntry \<and> elements = []) element of
        Inl e \<Rightarrow> Inl e
      | Inr s \<Rightarrow>
          (case render_array_elements stream formatted newline entry lastEntry elements of
             Inl e \<Rightarrow> Inl e
           | Inr ss \<Rightarrow> Inr (s # ss)))"

text \<open>
  The strings written for one entry of a section; \<open>newline\<close> is empty for the first entry
  after an empty \<open>sectionName\<close> string, \<open>lastEntry\<close> says that no entry follows.
\<close>

definition render_entry :: "havINIStream \<Rightarrow> bool \<Rightarrow> string \<Rightarrow> bool \<Rightarrow> havINIData \<Rightarrow> exn + string list" where
  "render_entry stream formatted newline lastEntry d =
     (case mType d of
        Empty \<Rightarrow>
          (case render_inline_comment stream formatted (mInlineComment d) of
             Inl e \<Rightarrow> Inl e
           | Inr ic \<Rightarrow> Inr [newline @ ic])
      | Comment \<Rightarrow>
          (case ConvertToEscapedString (mValue d) of
             Inl e \<Rightarrow> Inl e
           | Inr t \<Rightarrow>
               (case render_inline_comment stream formatted (mInlineComment d) of
                  Inl e \<Rightarrow> Inl e
                | Inr ic \<Rightarrow>
                    Inr [newline @ [mCommentCharacter stream] @ '' '' @ t @ ic
                         @ (if formatted \<and> lastEntry then mNewline stream else [])]))
      | Array \<Rightarrow> render_array_elements stream formatted newline d lastEntry (mArray d)
      | Value \<Rightarrow>
          (case render_value stream d of
             Inl e \<Rightarrow> Inl e
           | Inr v \<Rightarrow>
               (case ConvertToEscapedString (mKey d) of
                  Inl e \<Rightarrow> Inl e
                | Inr k \<Rightarrow>
                    (case render_inline_comment stream formatted (mInlineComment d) of
                       Inl e \<Rightarrow> Inl e
                     | Inr ic \<Rightarrow>
                         Inr [newline @ k @ render_delimiter stream formatted @ v @ ic
                              @ (if formatted \<and> lastEntry then mNewline stream else [])]))))"

fun render_entries :: "havINIStream \<Rightarrow> bool \<Rightarrow> bool \<Rightarrow> havINIData list \<Rightarrow> exn + string list" where
  "render_entries stream formatted first [] = Inr []"
| "render_entries stream formatted first (d # ds) =
     (case render_entry stream formatted (if first then [] else mNewline stream) (ds = []) d of
        Inl e \<Rightarrow> Inl e
      | Inr ss \<Rightarrow>
          (case render_entries stream formatted False ds of
             Inl e \<Rightarrow> Inl e
           | Inr ss' \<Rightarrow> Inr (ss @ ss')))"

text \<open>
  The header of a section that is not the global one; \<open>written\<close> says that the file holds
  more than the byte-order mark (\<open>ftell\<close>), \<open>atBegin\<close> that the section is the first.
\<close>

definition render_header :: "havINIStream \<Rightarrow> bool \<Rightarrow> bool \<Rightarrow> bool \<Rightarrow> havINISection \<Rightarrow> exn + string" where
  "render_header stream formatted atBegin written sec =
     (case ConvertToEscapedString (mSectionName sec) of
        Inl e \<Rightarrow> Inl e
      | Inr n \<Rightarrow>
          (case render_inline_comment stream formatted (mSectionInlineComment sec) of
             Inl e \<Rightarrow> Inl e
           | Inr ic \<Rightarrow>
               Inr ((if written \<and> \<not> atBegin then mNewline stream else [])
                    @ ''['' @ n @ '']'' @ ic
                    @ (if formatted \<and> mKeyValuePairs sec = [] then mNewline stream else []))))"

text \<open>Writing a list of strings, one \<open>WriteStringToFile\<close> each, after what the file holds.\<close>

fun write_strings ::
  "(string \<Rightarrow> exn + 16 word list) \<Rightarrow> (string \<Rightarrow> exn + 32 word list) \<Rightarrow> havINIBOMType
     \<Rightarrow> string \<Rightarrow> string list \<Rightarrow> exn + string" where
  "write_strings f16 f32 bomType file [] = Inr file"
| "write_strings f16 f32 bomType file (s # ss) =
     (case WriteStringToFile f16 f32 bomType s of
        Inl e \<Rightarrow> Inl e
      | Inr b \<Rightarrow> write_strings f16 f32 bomType (file @ b) ss)"

fun write_sections ::
  "(string \<Rightarrow> exn + 16 word list) \<Rightarrow> (string \<Rightarrow> exn + 32 word list) \<Rightarrow> havINIBOMType
     \<Rightarrow> havINIStream \<Rightarrow> bool \<Rightarrow> bool \<Rightarrow> string \<Rightarrow> havINISection list \<Rightarrow> exn + string" where
  "write_sections f16 f32 bomType stream formatted atBegin file [] = Inr file"
| "write_sections f16 f32 bomType stream formatted atBegin file (sec # secs) =
     (case (if mSectionName sec \<noteq> ''HI_Global'' \<and> mSectionName sec \<noteq> ''hi_global'' then
              (case render_header stream formatted atBegin
                      (length file > length (BOM_bytes bomType)) sec of
                 Inl e \<Rightarrow> Inl e
               | Inr h \<Rightarrow> Inr [h])
            else Inr []) of
        Inl e \<Rightarrow> Inl e
      | Inr header \<Rightarrow>
          (case write_strings f16 f32 bomType file header of
             Inl e \<Rightarrow> Inl e
           | Inr file1 \<Rightarrow>
               (case render_entries stream formatted (header = []) (mKeyValuePairs sec) of
                  Inl e \<Rightarrow> Inl e
                | Inr ss \<Rightarrow>
                    (case write_strings f16 f32 bomType file1 ss of
                       Inl e \<Rightarrow> Inl e
                     | Inr file2 \<Rightarrow>
                         write_sections f16 f32 bomType stream formatted False file2 secs))))"

text \<open>
  \<open>WriteFile\<close>: \<open>writable\<close> says whether the file could be opened; the result is the return
  value and the bytes of the file.
\<close>

definition WriteFile ::
  "(string \<Rightarrow> exn + 16 word list) \<Rightarrow> (string \<Rightarrow> exn + 32 word list) \<Rightarrow> bool \<Rightarrow> bool
     \<Rightarrow> havINIBOMType \<Rightarrow> havINIStream \<Rightarrow> exn + (bool \<times> string)" where
  "WriteFile from_bytes16 from_bytes32 writable formatted bomType stream =
     (if \<not> writable then Inr (False, [])
      else
        (case write_sections from_bytes16 from_bytes32 bomType stream formatted True
                (BOM_bytes bomType) (mData stream) of
           Inl e \<Rightarrow> Inl e
         | Inr file \<Rightarrow> Inr (True, file)))"

section \<open>Properties\<close>

subsection \<open>Case folding, lookups and decimal strings\<close>

lemma tolower_idem: "tolower (tolower c) = tolower c"
  by (auto simp: tolower_def Let_def)

lemma ToLower_idem: "ToLower (ToLower s) = ToLower s"
  by (simp add: ToLower_def tolower_idem)

lemma has_section_iff: "has_section n xs \<longleftrightarrow> (\<exists>s\<in>set xs. mSectionName s = n)"
  by (induction xs) (auto simp: has_section_def)

lemma find_None_has_section: "find (\<lambda>s. mSectionName s = n) xs = None \<longleftrightarrow> \<not> has_section n xs"
  by (simp add: has_section_def)

lemma update_first_cong_found:
  "find P xs = Some x \<Longrightarrow> f x = g x \<Longrightarrow> update_first P f xs = update_first P g xs"
  by (induction xs) (auto split: if_splits)

lemma has_key_iff: "has_key k xs \<longleftrightarrow> (\<exists>d\<in>set xs. mKey d = k)"
  by (induction xs) (auto simp: has_key_def)

subsection \<open>Lookups after an update\<close>


lemma find_decomp:
  "\<forall>y\<in>set pre. \<not> P y \<Longrightarrow> P x \<Longrightarrow> find P (pre @ x # post) = Some x"
  by (induction pre) auto

lemma update_first_decomp:
  "\<forall>y\<in>set pre. \<not> P y \<Longrightarrow> P x \<Longrightarrow> update_first P f (pre @ x # post) = pre @ f x # post"
  by (induction pre) auto

lemma find_update_first:
  "(\<And>x. P x \<Longrightarrow> P (f x)) \<Longrightarrow> find P (update_first P f xs) = map_option f (find P xs)"
  by (induction xs) auto

lemma find_append_new:
  "find P xs = None \<Longrightarrow> P y \<Longrightarrow> find P (xs @ [y]) = Some y"
  by (induction xs) (auto split: if_splits)

lemma Section_SetKeyValuePair_name:
  "mSectionName (Section_SetKeyValuePair k v q s) = mSectionName s"
  by (simp add: Section_SetKeyValuePair_def Let_def)

lemma Section_SetKeyValuePair_lookup:
  "\<exists>d. find (\<lambda>d. mKey d = ToLower k) (mKeyValuePairs (Section_SetKeyValuePair k v q s)) = Some d
       \<and> mValue d = v \<and> mAddQuotes d = q"
proof (cases "has_key (ToLower k) (mKeyValuePairs s)")
  case True
  then obtain d where d: "find (\<lambda>d. mKey d = ToLower k) (mKeyValuePairs s) = Some d"
    by (auto simp: has_key_def)
  have "find (\<lambda>d. mKey d = ToLower k)
          (update_first (\<lambda>d. mKey d = ToLower k) (\<lambda>d. Data_SetAddQuotes q (Data_SetValue v d))
             (mKeyValuePairs s))
        = Some (Data_SetAddQuotes q (Data_SetValue v d))"
    by (subst find_update_first) (simp_all add: d Data_SetAddQuotes_def Data_SetValue_def)
  then show ?thesis using True
    by (simp add: Section_SetKeyValuePair_def Let_def Data_SetAddQuotes_def Data_SetValue_def)
next
  case False
  then have n: "find (\<lambda>d. mKey d = ToLower k) (mKeyValuePairs s) = None"
    by (simp add: has_key_def)
  have "find (\<lambda>d. mKey d = ToLower k) (mKeyValuePairs s @ [new_data (ToLower k) v Value q])
        = Some (new_data (ToLower k) v Value q)"
    by (rule find_append_new [OF n]) (simp add: new_data_def)
  then show ?thesis using False
    by (simp add: Section_SetKeyValuePair_def Let_def new_data_def)
qed

lemma SetValue_as_SetKeyValuePair:
  "SetValue sn kn v q st =
     (True, st\<lparr> mData :=
        (case find (\<lambda>s. mSectionName s = ToLower sn) (mData st) of
           None \<Rightarrow> mData st @ [Section_SetKeyValuePair (ToLower kn) v q (new_section (ToLower sn))]
         | Some sec \<Rightarrow> update_first (\<lambda>s. mSectionName s = ToLower sn)
                        (Section_SetKeyValuePair (ToLower kn) v q) (mData st)) \<rparr>)"
proof (cases "find (\<lambda>s. mSectionName s = ToLower sn) (mData st)")
  case None
  then show ?thesis unfolding SetValue_def Let_def by simp
next
  case (Some sec)
  have e: "has_key (ToLower kn) (mKeyValuePairs sec) \<Longrightarrow>
      update_first (\<lambda>s. mSectionName s = ToLower sn)
         (\<lambda>s. s\<lparr> mKeyValuePairs :=
                 update_first (\<lambda>d. mKey d = ToLower kn)
                   (\<lambda>d. Data_SetAddQuotes q (Data_SetValue v d)) (mKeyValuePairs s) \<rparr>) (mData st)
      = update_first (\<lambda>s. mSectionName s = ToLower sn)
          (Section_SetKeyValuePair (ToLower kn) v q) (mData st)"
    by (rule update_first_cong_found [where x = sec], rule Some)
       (simp add: Section_SetKeyValuePair_def Let_def ToLower_idem)
  show ?thesis unfolding SetValue_def Let_def Some
    by (cases "has_key (ToLower kn) (mKeyValuePairs sec)") (simp_all add: e ToLower_idem)
qed

lemma GetValue_SetValue: "GetValue sn kn dflt (snd (SetValue sn kn v q st)) = v"
proof (cases "find (\<lambda>s. mSectionName s = ToLower sn) (mData st)")
  case None
  have f: "find (\<lambda>s. mSectionName s = ToLower sn)
             (mData st @ [Section_SetKeyValuePair (ToLower kn) v q (new_section (ToLower sn))])
           = Some (Section_SetKeyValuePair (ToLower kn) v q (new_section (ToLower sn)))"
    by (rule find_append_new [OF None]) (simp add: Section_SetKeyValuePair_name new_section_def)
  obtain d where d: "find (\<lambda>d. mKey d = ToLower (ToLower kn))
       (mKeyValuePairs (Section_SetKeyValuePair (ToLower kn) v q (new_section (ToLower sn)))) = Some d"
      "mValue d = v"
    using Section_SetKeyValuePair_lookup [of "ToLower kn" v q "new_section (ToLower sn)"] by blast
  show ?thesis
    by (simp add: SetValue_as_SetKeyValuePair GetValue_def None f d)
next
  case (Some sec)
  have f: "find (\<lambda>s. mSectionName s = ToLower sn)
             (update_first (\<lambda>s. mSectionName s = ToLower sn)
                (Section_SetKeyValuePair (ToLower kn) v q) (mData st))
           = Some (Section_SetKeyValuePair (ToLower kn) v q sec)"
    by (subst find_update_first) (simp_all add: Some Section_SetKeyValuePair_name)
  obtain d where d: "find (\<lambda>d. mKey d = ToLower (ToLower kn))
       (mKeyValuePairs (Section_SetKeyValuePair (ToLower kn) v q sec)) = Some d"
      "mValue d = v"
    using Section_SetKeyValuePair_lookup [of "ToLower kn" v q sec] by blast
  show ?thesis
    by (simp add: SetValue_as_SetKeyValuePair GetValue_def Some f d)
qed

lemma add_error_sel:
  "pData (add_error m st) = pData st" "printed (add_error m st) = printed st"
  "errorMessage (add_error m st) \<noteq> []" "newSection (add_error m st) = newSection st"
  "isArrayKey (add_error m st) = isArrayKey st" "keyName (add_error m st) = keyName st"
  by (simp_all add: add_error_def)

lemma update_first_exn_Inr:
  "(\<And>x. \<exists>y. f x = Inr y) \<Longrightarrow> \<exists>ys. update_first_exn P f xs = Inr ys"
proof (induction xs)
  case Nil
  then show ?case by simp
next
  case (Cons x xs)
  obtain y where y: "f x = Inr y" using Cons.prems by blast
  obtain ys where ys: "update_first_exn P f xs = Inr ys" using Cons by blast
  show ?case by (simp add: y ys)
qed

subsection \<open>SetValue\<close>

text \<open>
  Claim C9. \<open>havINIStream::SetValue\<close> returns true for every section name, key name, value
  and quoting flag, so \<open>return false\<close> is never reached. When no section has the (lower-cased)
  name, a section of that name holding the one new Value entry is appended to the document.
  When the first section of that name, \<open>sec\<close>, has no entry under the (lower-cased) key, the
  document changes only in that a fresh Value entry with the value and the quoting flag is
  appended to the entries of \<open>sec\<close>. When the first entry of \<open>sec\<close> under the key is \<open>d\<close>, the
  document changes only in \<open>d\<close>, whose value and quoting flag are replaced and whose type, key,
  inline comment, index and elements stay. In every case the value can then be read back with
  \<open>GetValue\<close>, and nothing of the stream but its document is touched.
\<close>

theorem SetValue_returns_true:
  "fst (SetValue sn kn v q st) = True \<and>
   (\<not> has_section (ToLower sn) (mData st) \<longrightarrow>
      mData (snd (SetValue sn kn v q st)) =
        mData st @ [(new_section (ToLower sn))\<lparr> mKeyValuePairs := [new_data (ToLower kn) v Value q] \<rparr>]) \<and>
   (\<forall>pre sec post.
      mData st = pre @ sec # post \<and> (\<forall>s\<in>set pre. mSectionName s \<noteq> ToLower sn)
        \<and> mSectionName sec = ToLower sn
        \<and> (\<forall>e\<in>set (mKeyValuePairs sec). mKey e \<noteq> ToLower kn) \<longrightarrow>
      SetValue sn kn v q st =
        (True, st\<lparr> mData :=
           pre @ sec\<lparr> mKeyValuePairs :=
                    mKeyValuePairs sec @ [havINIData Value (ToLower kn) v None q 0 False []] \<rparr> # post \<rparr>)) \<and>
   (\<forall>pre sec post kpre d kpost.
      mData st = pre @ sec # post \<and> (\<forall>s\<in>set pre. mSectionName s \<noteq> ToLower sn)
        \<and> mSectionName sec = ToLower sn
        \<and> mKeyValuePairs sec = kpre @ d # kpost \<and> (\<forall>e\<in>set kpre. mKey e \<noteq> ToLower kn)
        \<and> mKey d = ToLower kn \<longrightarrow>
      SetValue sn kn v q st =
        (True, st\<lparr> mData :=
           pre @ sec\<lparr> mKeyValuePairs :=
                    kpre @ havINIData (mType d) (mKey d) v (mInlineComment d) q (mArrayIndex d)
                             (mHasArrayIndex d) (mArray d) # kpost \<rparr> # post \<rparr>)) \<and>
   GetValue sn kn dflt (snd (SetValue sn kn v q st)) = v \<and>
   (\<exists>secs. snd (SetValue sn kn v q st) = st\<lparr> mData := secs \<rparr>)"
proof (intro conjI allI impI)
  show "fst (SetValue sn kn v q st) = True"
    by (simp add: SetValue_def Let_def split: option.split)
next
  assume "\<not> has_section (ToLower sn) (mData st)"
  then have "find (\<lambda>s. mSectionName s = ToLower sn) (mData st) = None"
    by (simp add: has_section_def)
  then show "mData (snd (SetValue sn kn v q st)) =
        mData st @ [(new_section (ToLower sn))\<lparr> mKeyValuePairs := [new_data (ToLower kn) v Value q] \<rparr>]"
    unfolding SetValue_def Let_def ToLower_idem
    by (simp add: Section_SetKeyValuePair_def ToLower_idem new_section_def has_key_def)
next
  fix pre sec post
  assume h: "mData st = pre @ sec # post \<and> (\<forall>s\<in>set pre. mSectionName s \<noteq> ToLower sn)
        \<and> mSectionName sec = ToLower sn
        \<and> (\<forall>e\<in>set (mKeyValuePairs sec). mKey e \<noteq> ToLower kn)"
  then have m: "mData st = pre @ sec # post"
    and p: "\<forall>s\<in>set pre. \<not> mSectionName s = ToLower sn"
    and n: "mSectionName sec = ToLower sn"
    and k: "\<forall>e\<in>set (mKeyValuePairs sec). mKey e \<noteq> ToLower kn" by blast+
  have f: "find (\<lambda>s. mSectionName s = ToLower sn) (mData st) = Some sec"
    unfolding m by (rule find_decomp [OF p n])
  have hk: "\<not> has_key (ToLower kn) (mKeyValuePairs sec)"
    using k by (simp add: has_key_iff)
  have e: "Section_SetKeyValuePair (ToLower kn) v q sec
        = sec\<lparr> mKeyValuePairs := mKeyValuePairs sec @ [havINIData Value (ToLower kn) v None q 0 False []] \<rparr>"
    unfolding Section_SetKeyValuePair_def Let_def ToLower_idem new_data_def by (simp only: hk if_False)
  have u: "update_first (\<lambda>s. mSectionName s = ToLower sn) (Section_SetKeyValuePair (ToLower kn) v q) (mData st)
        = pre @ Section_SetKeyValuePair (ToLower kn) v q sec # post"
    unfolding m by (rule update_first_decomp [OF p n])
  show "SetValue sn kn v q st =
        (True, st\<lparr> mData :=
           pre @ sec\<lparr> mKeyValuePairs :=
                    mKeyValuePairs sec @ [havINIData Value (ToLower kn) v None q 0 False []] \<rparr> # post \<rparr>)"
    by (simp only: SetValue_as_SetKeyValuePair f option.case u e)
next
  fix pre sec post kpre d kpost
  assume h: "mData st = pre @ sec # post \<and> (\<forall>s\<in>set pre. mSectionName s \<noteq> ToLower sn)
        \<and> mSectionName sec = ToLower sn
        \<and> mKeyValuePairs sec = kpre @ d # kpost \<and> (\<forall>e\<in>set kpre. mKey e \<noteq> ToLower kn)
        \<and> mKey d = ToLower kn"
  then have m: "mData st = pre @ sec # post"
    and p: "\<forall>s\<in>set pre. \<not> mSectionName s = ToLower sn"
    and n: "mSectionName sec = ToLower sn"
    and km: "mKeyValuePairs sec = kpre @ d # kpost"
    and kp: "\<forall>e\<in>set kpre. \<not> mKey e = ToLower kn"
    and kd: "mKey d = ToLower kn" by blast+
  have f: "find (\<lambda>s. mSectionName s = ToLower sn) (mData st) = Some sec"
    unfolding m by (rule find_decomp [OF p n])
  have hk: "has_key (ToLower kn) (mKeyValuePairs sec)"
    unfolding km using kd by (simp add: has_key_iff)
  have ku: "update_first (\<lambda>d. mKey d = ToLower kn) (\<lambda>d. Data_SetAddQuotes q (Data_SetValue v d))
              (mKeyValuePairs sec)
        = kpre @ Data_SetAddQuotes q (Data_SetValue v d) # kpost"
    unfolding km by (rule update_first_decomp [OF kp kd])
  have dd: "Data_SetAddQuotes q (Data_SetValue v d)
        = havINIData (mType d) (mKey d) v (mInlineComment d) q (mArrayIndex d) (mHasArrayIndex d) (mArray d)"
    by (cases d) (simp add: Data_SetAddQuotes_def Data_SetValue_def)
  have e: "Section_SetKeyValuePair (ToLower kn) v q sec
        = sec\<lparr> mKeyValuePairs :=
                 kpre @ havINIData (mType d) (mKey d) v (mInlineComment d) q (mArrayIndex d)
                          (mHasArrayIndex d) (mArray d) # kpost \<rparr>"
    unfolding Section_SetKeyValuePair_def Let_def ToLower_idem by (simp only: hk if_True ku dd)
  have u: "update_first (\<lambda>s. mSectionName s = ToLower sn) (Section_SetKeyValuePair (ToLower kn) v q) (mData st)
        = pre @ Section_SetKeyValuePair (ToLower kn) v q sec # post"
    unfolding m by (rule update_first_decomp [OF p n])
  show "SetValue sn kn v q st =
        (True, st\<lparr> mData :=
           pre @ sec\<lparr> mKeyValuePairs :=
                    kpre @ havINIData (mType d) (mKey d) v (mInlineComment d) q (mArrayIndex d)
                             (mHasArrayIndex d) (mArray d) # kpost \<rparr> # post \<rparr>)"
    by (simp only: SetValue_as_SetKeyValuePair f option.case u e)
next
  show "GetValue sn kn dflt (snd (SetValue sn kn v q st)) = v"
    by (rule GetValue_SetValue)
next
  show "\<exists>secs. snd (SetValue sn kn v q st) = st\<lparr> mData := secs \<rparr>"
    by (simp only: SetValue_as_SetKeyValuePair snd_conv) blast
qed

theorem SetValue_returns_true_witness:
  "(fst (SetValue ''Net'' ''Port'' ''80'' False new_stream) = True
    \<and> \<not> has_section (ToLower ''Net'') (mData new_stream)
    \<and> mData (snd (SetValue ''Net'' ''Port'' ''80'' False new_stream)) =
        mData new_stream @
          [(new_section (ToLower ''Net''))\<lparr> mKeyValuePairs := [new_data (ToLower ''Port'') ''80'' Value False] \<rparr>])
   \<and> (mData (new_stream\<lparr> mData := [new_section ''hi_global'',
            (new_section ''net'')\<lparr> mKeyValuePairs := [new_data ''port'' ''80'' Value False] \<rparr>] \<rparr>)
         = [new_section ''hi_global'']
           @ (new_section ''net'')\<lparr> mKeyValuePairs := [new_data ''port'' ''80'' Value False] \<rparr> # []
    \<and> mSectionName (new_section ''hi_global'') \<noteq> ToLower ''NET''
    \<and> mSectionName ((new_section ''net'')\<lparr> mKeyValuePairs := [new_data ''port'' ''80'' Value False] \<rparr>)
         = ToLower ''NET''
    \<and> mKey (new_data ''port'' ''80'' Value False) \<noteq> ToLower ''Host''
    \<and> SetValue ''NET'' ''Host'' ''h'' True
         (new_stream\<lparr> mData := [new_section ''hi_global'',
            (new_section ''net'')\<lparr> mKeyValuePairs := [new_data ''port'' ''80'' Value False] \<rparr>] \<rparr>)
       = (True, new_stream\<lparr> mData := [new_section ''hi_global'',
            (new_section ''net'')\<lparr> mKeyValuePairs :=
               [havINIData Value ''port'' ''80'' None False 0 False [],
                havINIData Value ''host'' ''h'' None True 0 False []] \<rparr>] \<rparr>))
   \<and> (mKeyValuePairs ((new_section ''net'')\<lparr> mKeyValuePairs :=
            [new_data ''host'' ''h'' Value True, new_data ''port'' ''80'' Value False] \<rparr>)
         = [new_data ''host'' ''h'' Value True] @ new_data ''port'' ''80'' Value False # []
    \<and> mKey (new_data ''host'' ''h'' Value True) \<noteq> ToLower ''PORT''
    \<and> mKey (new_data ''port'' ''80'' Value False) = ToLower ''PORT''
    \<and> SetValue ''net'' ''PORT'' ''81'' True
         (new_stream\<lparr> mData := [new_section ''hi_global'',
            (new_section ''net'')\<lparr> mKeyValuePairs :=
               [new_data ''host'' ''h'' Value True, new_data ''port'' ''80'' Value False] \<rparr>] \<rparr>)
       = (True, new_stream\<lparr> mData := [new_section ''hi_global'',
            (new_section ''net'')\<lparr> mKeyValuePairs :=
               [havINIData Value ''host'' ''h'' None True 0 False [],
                havINIData Value ''port'' ''81'' None True 0 False []] \<rparr>] \<rparr>)
    \<and> GetValue ''net'' ''PORT'' ''none''
         (snd (SetValue ''net'' ''PORT'' ''81'' True
            (new_stream\<lparr> mData := [new_section ''hi_global'',
               (new_section ''net'')\<lparr> mKeyValuePairs :=
                  [new_data ''host'' ''h'' Value True, new_data ''port'' ''80'' Value False] \<rparr>] \<rparr>))) = ''81'')"
  (is "(?t1 \<and> ?h1 \<and> ?c1) \<and> (?h2a \<and> ?h2b \<and> ?h2c \<and> ?h2d \<and> ?c2) \<and> (?h3a \<and> ?h3b \<and> ?h3c \<and> ?c3 \<and> ?g3)")
proof -
  let ?port = "new_data ''port'' ''80'' Value False"
  let ?host = "new_data ''host'' ''h'' Value True"
  let ?sec2 = "(new_section ''net'')\<lparr> mKeyValuePairs := [?port] \<rparr>"
  let ?sec3 = "(new_section ''net'')\<lparr> mKeyValuePairs := [?host, ?port] \<rparr>"
  let ?st2 = "new_stream\<lparr> mData := [new_section ''hi_global'', ?sec2] \<rparr>"
  let ?st3 = "new_stream\<lparr> mData := [new_section ''hi_global'', ?sec3] \<rparr>"
  have h1: ?h1 by code_simp
  have h2a: ?h2a by simp
  have h2b: ?h2b by code_simp
  have h2c: ?h2c by code_simp
  have h2d: ?h2d by code_simp
  have h3a: ?h3a by simp
  have h3b: ?h3b by code_simp
  have h3c: ?h3c by code_simp
  have h3m: "mData ?st3 = [new_section ''hi_global''] @ ?sec3 # []" by simp
  have h3n: "mSectionName ?sec3 = ToLower ''net''" by code_simp
  have h3p: "mSectionName (new_section ''hi_global'') \<noteq> ToLower ''net''" by code_simp
  have t1: ?t1 and c1: ?c1
    using SetValue_returns_true [of "''Net''" "''Port''" "''80''" False new_stream] h1 by blast+
  have l2: "ToLower ''Host'' = ''host''" by code_simp
  have l3: "ToLower ''PORT'' = ''port''" by code_simp
  have "SetValue ''NET'' ''Host'' ''h'' True ?st2 =
        (True, ?st2\<lparr> mData := [new_section ''hi_global'']
           @ ?sec2\<lparr> mKeyValuePairs :=
                mKeyValuePairs ?sec2 @ [havINIData Value (ToLower ''Host'') ''h'' None True 0 False []] \<rparr> # [] \<rparr>)"
    using SetValue_returns_true [of "''NET''" "''Host''" "''h''" True ?st2, THEN conjunct2,
            THEN conjunct2, THEN conjunct1, rule_format,
            of "[new_section ''hi_global'']" ?sec2 "[]"]
          h2a h2b h2c h2d by simp
  then have c2: ?c2 by (simp add: l2 new_data_def)
  have "SetValue ''net'' ''PORT'' ''81'' True ?st3 =
        (True, ?st3\<lparr> mData := [new_section ''hi_global'']
           @ ?sec3\<lparr> mKeyValuePairs :=
                [?host] @ havINIData (mType ?port) (mKey ?port) ''81'' (mInlineComment ?port) True
                            (mArrayIndex ?port) (mHasArrayIndex ?port) (mArray ?port) # [] \<rparr> # [] \<rparr>)"
    using SetValue_returns_true [of "''net''" "''PORT''" "''81''" True ?st3, THEN conjunct2,
            THEN conjunct2, THEN conjunct2, THEN conjunct1, rule_format,
            of "[new_section ''hi_global'']" ?sec3 "[]" "[?host]" ?port "[]"]
          h3m h3n h3p h3a h3b h3c by simp
  then have c3: ?c3 by (simp add: new_data_def)
  have g3: ?g3
    using SetValue_returns_true [of "''net''" "''PORT''" "''81''" True ?st3 "''none''"] by blast
  show ?thesis using t1 h1 c1 h2a h2b h2c h2d c2 h3a h3b h3c c3 g3 by blast
qed
subsection \<open>Decimal sub-keys and array insertion\<close>

lemma update_first_exn_append_new:
  "\<not> (\<exists>x\<in>set xs. P x) \<Longrightarrow> P y \<Longrightarrow>
   update_first_exn P f (xs @ [y]) = (case f y of Inl e \<Rightarrow> Inl e | Inr z \<Rightarrow> Inr (xs @ [z]))"
  by (induction xs) (auto split: sum.splits)

lemma update_first_append_new:
  "\<not> (\<exists>x\<in>set xs. P x) \<Longrightarrow> P y \<Longrightarrow> update_first P f (xs @ [y]) = xs @ [f y]"
  by (induction xs) auto

lemma isdigit_digit_char: "n < 10 \<Longrightarrow> isdigit (digit_char n)"
  by (simp add: isdigit_def digit_char_def Let_def)

lemma digit_val_digit_char: "n < 10 \<Longrightarrow> digit_val (digit_char n) = int n"
  by (simp add: digit_val_def digit_char_def)

lemma tolower_digit_char: "n < 10 \<Longrightarrow> tolower (digit_char n) = digit_char n"
  by (simp add: tolower_def digit_char_def Let_def)

lemma isspace_digit_char: "n < 10 \<Longrightarrow> \<not> isspace (digit_char n)"
  by (simp add: isspace_def digit_char_def Let_def)

lemma of_char_digit_char: "n < 10 \<Longrightarrow> (of_char (digit_char n) :: nat) = 48 + n"
  by (simp add: digit_char_def)

lemma digit_char_not_sign: "n < 10 \<Longrightarrow> digit_char n \<noteq> CHR ''-'' \<and> digit_char n \<noteq> CHR ''+''"
proof (intro conjI notI)
  assume n: "n < 10" and e: "digit_char n = CHR ''-''"
  have "(of_char (digit_char n) :: nat) = 45" by (simp add: e)
  then show False using of_char_digit_char [OF n] by simp
next
  assume n: "n < 10" and e: "digit_char n = CHR ''+''"
  have "(of_char (digit_char n) :: nat) = 43" by (simp add: e)
  then show False using of_char_digit_char [OF n] by simp
qed

lemma to_string_digits: "set (to_string n) \<subseteq> digit_char ` {..<10}"
proof (induction n rule: to_string.induct)
  case (1 n)
  show ?case
  proof (cases "n < 10")
    case True
    then show ?thesis by (subst to_string.simps) auto
  next
    case False
    have "n mod 10 < 10" by simp
    then show ?thesis using 1 False by (subst to_string.simps) auto
  qed
qed

lemma to_string_nonempty: "to_string n \<noteq> []"
  by (subst to_string.simps) simp

lemma digits_val_append: "digits_val acc (xs @ ys) = digits_val (digits_val acc xs) ys"
  by (induction xs arbitrary: acc) auto

lemma digits_val_to_string: "digits_val 0 (to_string n) = int n"
proof (induction n rule: to_string.induct)
  case (1 n)
  show ?case
  proof (cases "n < 10")
    case True
    then show ?thesis by (subst to_string.simps) (simp add: digit_val_digit_char)
  next
    case False
    have m: "n mod 10 < 10" by simp
    have a: "int (n div 10) * 10 + int (n mod 10) = int n"
      by (simp add: zdiv_int zmod_int)
    have "digits_val 0 (to_string n) = digits_val (digits_val 0 (to_string (n div 10))) [digit_char (n mod 10)]"
      using False by (subst to_string.simps) (simp add: digits_val_append)
    also have "\<dots> = int (n div 10) * 10 + int (n mod 10)"
      using 1 False by (simp add: digit_val_digit_char [OF m])
    finally show ?thesis using a by simp
  qed
qed

lemma all_digits_to_string: "\<forall>c\<in>set (to_string n). isdigit c \<and> \<not> isspace c \<and> tolower c = c"
  using to_string_digits [of n] isdigit_digit_char isspace_digit_char tolower_digit_char by auto

lemma ToLower_to_string: "ToLower (to_string n) = to_string n"
  using all_digits_to_string [of n] by (simp add: ToLower_def map_idI)

lemma hd_to_string: "hd (to_string n) \<in> digit_char ` {..<10}"
  using to_string_digits [of n] to_string_nonempty [of n] hd_in_set by blast

lemma stol_to_string: "n < 2 ^ 63 \<Longrightarrow> stol (to_string n) = Inr (int n)"
proof -
  assume n: "n < 2 ^ 63"
  let ?s = "to_string n"
  have ne: "?s \<noteq> []" by (rule to_string_nonempty)
  have d: "\<forall>c\<in>set ?s. isdigit c \<and> \<not> isspace c" using all_digits_to_string by blast
  have h: "\<not> isspace (hd ?s)" using d ne hd_in_set by blast
  have dw: "dropWhile isspace ?s = ?s" using h ne by (cases ?s) auto
  obtain k where k: "k < 10" "hd ?s = digit_char k" using hd_to_string [of n] by auto
  have sg: "hd ?s \<noteq> CHR ''-'' \<and> hd ?s \<noteq> CHR ''+''"
    using digit_char_not_sign [OF k(1)] k(2) by simp
  have tw: "takeWhile isdigit ?s = ?s" using d by (simp add: takeWhile_eq_all_conv)
  have "int n < 2 ^ 63" using n by (metis of_nat_less_iff of_nat_numeral of_nat_power)
  then show ?thesis
    using ne sg by (simp add: stol_def Let_def dw tw digits_val_to_string)
qed


lemma to_string_inj:
  assumes "to_string m = to_string n"
  shows "m = n"
proof -
  have "int m = digits_val 0 (to_string m)" by (simp only: digits_val_to_string)
  also have "\<dots> = digits_val 0 (to_string n)" by (simp only: assms)
  also have "\<dots> = int n" by (simp only: digits_val_to_string)
  finally show ?thesis by simp
qed

lemma word32_le_of_nat:
  "m < 2 ^ 32 \<Longrightarrow> n < 2 ^ 32 \<Longrightarrow> ((of_nat m :: 32 word) \<le> of_nat n) = (m \<le> n)"
  by (simp add: word_le_nat_alt unat_of_nat)

lemma GetArrayIndex_loop_numeric:
  "map mKey arr = map to_string ns \<Longrightarrow> \<forall>n\<in>set ns. n < 2 ^ 32 - 1 \<Longrightarrow> m < 2 ^ 32 \<Longrightarrow>
   GetArrayIndex_loop (of_nat m) arr = Inr (of_nat (fold max (map Suc ns) m))"
proof (induction arr arbitrary: ns m)
  case Nil
  then show ?case by simp
next
  case (Cons e es)
  then obtain n ns' where ns: "ns = n # ns'" by (cases ns) auto
  have k: "mKey e = to_string n" and r: "map mKey es = map to_string ns'"
    using Cons.prems(1) ns by auto
  have n: "n < 2 ^ 32 - 1" and r2: "\<forall>n\<in>set ns'. n < 2 ^ 32 - 1"
    using Cons.prems(2) ns by auto
  have n32: "n < 2 ^ 32" using n by simp
  have n63: "n < 2 ^ 63" using n by simp
  have st: "stol (mKey e) = Inr (int n)" using stol_to_string [OF n63] k by simp
  have le: "((of_nat m :: 32 word) \<le> of_nat n) = (m \<le> n)"
    using word32_le_of_nat [OF Cons.prems(3) n32] .
  have m': "max (Suc n) m < 2 ^ 32" using n Cons.prems(3) by auto
  have step: "(if (of_nat m :: 32 word) \<le> of_nat n then of_nat n + 1 else of_nat m) = (of_nat (max (Suc n) m) :: 32 word)"
    unfolding le by (auto simp: max_def)
  have "GetArrayIndex_loop (of_nat m) (e # es) =
        GetArrayIndex_loop (if (of_nat m :: 32 word) \<le> of_nat n then of_nat n + 1 else of_nat m) es"
    by (simp add: st Let_def)
  also have "\<dots> = GetArrayIndex_loop (of_nat (max (Suc n) m)) es"
    by (simp only: step)
  also have "\<dots> = Inr (of_nat (fold max (map Suc ns') (max (Suc n) m)))"
    by (rule Cons.IH [OF r r2 m'])
  finally show ?case by (simp add: ns)
qed

lemma fold_max_Suc: "ns \<noteq> [] \<Longrightarrow> fold max (map Suc ns) 0 = Suc (Max (set ns))"
proof -
  assume ne: "ns \<noteq> []"
  have "fold max (map Suc ns) 0 = Max (set (0 # map Suc ns))"
    by (simp only: Max.set_eq_fold)
  also have "\<dots> = Max (insert 0 (Suc ` set ns))" by simp
  also have "\<dots> = max 0 (Max (Suc ` set ns))" using ne by (subst Max_insert) auto
  also have "\<dots> = Max (Suc ` set ns)" by simp
  also have "\<dots> = Suc (Max (set ns))"
  proof -
    have "mono Suc" by (simp add: mono_def)
    then have "Suc (Max (set ns)) = Max (Suc ` set ns)"
      using ne by (intro mono_Max_commute) auto
    then show ?thesis by (rule sym)
  qed
  finally show ?thesis .
qed

lemma GetArrayIndex_loop_Max:
  assumes "map mKey arr = map to_string ns" "ns \<noteq> []" "\<forall>n\<in>set ns. n < 2 ^ 32 - 1"
  shows "GetArrayIndex_loop 0 arr = Inr (of_nat (Max (set ns) + 1))"
proof -
  have "GetArrayIndex_loop (of_nat 0) arr = Inr (of_nat (fold max (map Suc ns) 0))"
    by (rule GetArrayIndex_loop_numeric [OF assms(1) assms(3)]) simp
  then show ?thesis using fold_max_Suc [OF assms(2)] by simp
qed


lemma mKey_setters [simp]:
  "mKey (Data_SetValue v d) = mKey d" "mKey (Data_SetInlineComment ic d) = mKey d"
  "mKey (Data_SetAddQuotes q d) = mKey d" "mKey (Data_SetArrayIndex i d) = mKey d"
  "mKey (Data_SetArray arr d) = mKey d"
  by (simp_all add: Data_SetValue_def Data_SetInlineComment_def Data_SetAddQuotes_def
        Data_SetArrayIndex_def Data_SetArray_def)

lemma mValue_setters [simp]:
  "mValue (Data_SetValue v d) = v" "mValue (Data_SetInlineComment ic d) = mValue d"
  "mValue (Data_SetAddQuotes q d) = mValue d" "mValue (Data_SetArrayIndex i d) = mValue d"
  "mValue (Data_SetArray arr d) = mValue d"
  by (simp_all add: Data_SetValue_def Data_SetInlineComment_def Data_SetAddQuotes_def
        Data_SetArrayIndex_def Data_SetArray_def)

lemma mType_setters [simp]:
  "mType (Data_SetValue v d) = mType d" "mType (Data_SetInlineComment ic d) = mType d"
  "mType (Data_SetAddQuotes q d) = mType d" "mType (Data_SetArrayIndex i d) = mType d"
  "mType (Data_SetArray arr d) = mType d"
  by (simp_all add: Data_SetValue_def Data_SetInlineComment_def Data_SetAddQuotes_def
        Data_SetArrayIndex_def Data_SetArray_def)

lemma mArray_setters [simp]:
  "mArray (Data_SetValue v d) = mArray d" "mArray (Data_SetInlineComment ic d) = mArray d"
  "mArray (Data_SetAddQuotes q d) = mArray d" "mArray (Data_SetArrayIndex i d) = mArray d"
  "mArray (Data_SetArray arr d) = arr"
  by (simp_all add: Data_SetValue_def Data_SetInlineComment_def Data_SetAddQuotes_def
        Data_SetArrayIndex_def Data_SetArray_def)

lemma new_data_sel [simp]:
  "mKey (new_data k v t q) = k" "mValue (new_data k v t q) = v" "mType (new_data k v t q) = t"
  "mArray (new_data k v t q) = []" "mAddQuotes (new_data k v t q) = q"
  "mInlineComment (new_data k v t q) = None"
  "mKey (new_data_key k t a h) = k" "mValue (new_data_key k t a h) = []" "mType (new_data_key k t a h) = t"
  "mArray (new_data_key k t a h) = []" "mHasArrayIndex (new_data_key k t a h) = h"
  "mAddQuotes (new_data_key k t a h) = a"
  by (simp_all add: new_data_def new_data_key_def)

lemma map_mKey_update_first:
  "(\<And>x. mKey (f x) = mKey x) \<Longrightarrow> map mKey (update_first P f xs) = map mKey xs"
  by (induction xs) auto

lemma map_mValue_update_first_new:
  "\<not> (\<exists>x\<in>set xs. P x) \<Longrightarrow> P y \<Longrightarrow> map mValue (update_first P f (xs @ [y])) = map mValue xs @ [mValue (f y)]"
  by (simp add: update_first_append_new)

text \<open>An insertion under a sub-key the array does not hold yet appends one element.\<close>

lemma Data_SetArrayEntry_fresh_key:
  assumes "key \<noteq> []" "\<not> has_key (ToLower key) (mArray d)"
  shows "\<exists>d'. Data_SetArrayEntry key v q c ic d = Inr d' \<and> mKey d' = mKey d \<and> mType d' = mType d
           \<and> map mKey (mArray d') = map mKey (mArray d) @ [ToLower key]
           \<and> map mValue (mArray d') = map mValue (mArray d) @ [v]"
proof -
  have nk: "\<not> (\<exists>x\<in>set (mArray d). mKey x = ToLower key)" using assms(2) by (simp add: has_key_iff)
  show ?thesis
    using assms nk
    by (simp add: Data_SetArrayEntry_def Let_def map_mKey_update_first update_first_append_new)
qed

lemma Data_SetArrayEntry_auto:
  assumes "map mKey (mArray d) = map to_string ns" "\<forall>n\<in>set ns. n < 2 ^ 32 - 1"
  shows "\<exists>d'. Data_SetArrayEntry [] v q c ic d = Inr d' \<and> mKey d' = mKey d \<and> mType d' = mType d
           \<and> map mKey (mArray d') = map mKey (mArray d) @ [to_string (if ns = [] then 0 else Max (set ns) + 1)]
           \<and> map mValue (mArray d') = map mValue (mArray d) @ [v]"
proof -
  let ?i = "if ns = [] then 0 else Max (set ns) + 1"
  have loop: "GetArrayIndex_loop 0 (mArray d) = Inr (of_nat ?i)"
  proof (cases "ns = []")
    case True
    then show ?thesis using assms(1) by simp
  next
    case False
    then show ?thesis using GetArrayIndex_loop_Max [OF assms(1) False assms(2)] by simp
  qed
  have bound: "?i < 2 ^ 32"
  proof (cases "ns = []")
    case True then show ?thesis by simp
  next
    case False
    then have "Max (set ns) \<in> set ns" by (intro Max_in) auto
    then have "Max (set ns) < 2 ^ 32 - 1" using assms(2) by blast
    then show ?thesis using False by simp
  qed
  have un: "unat (of_nat ?i :: 32 word) = ?i"
    using bound by (simp only: unat_of_nat) simp
  have fresh: "\<not> (\<exists>x\<in>set (mArray d). mKey x = to_string ?i)"
  proof
    assume "\<exists>x\<in>set (mArray d). mKey x = to_string ?i"
    then have "to_string ?i \<in> set (map mKey (mArray d))" by force
    then have "to_string ?i \<in> to_string ` set ns" using assms(1) by simp
    then obtain n where n: "n \<in> set ns" "to_string ?i = to_string n" by blast
    then have e: "?i = n" using to_string_inj by blast
    have ne: "ns \<noteq> []" using n(1) by auto
    have "n \<le> Max (set ns)" using n(1) by simp
    then show False using e ne by simp
  qed
  have ga: "GetArrayIndex d = Inr (of_nat ?i, Data_SetArrayIndex (of_nat ?i) d)"
    by (simp only: GetArrayIndex_def loop sum.case)
  have "Data_SetArrayEntry [] v q c ic d =
     (let key = ToLower (to_string (unat (of_nat ?i :: 32 word))); d1 = Data_SetArrayIndex (of_nat ?i) d in
           if \<not> has_key key (mArray d1) then
             (let arr = mArray d1 @ [new_data key v Value False] in
              if c then
                Inr (Data_SetArray
                  (update_first (\<lambda>e. mKey e = key)
                     (\<lambda>e. Data_SetAddQuotes q (Data_SetInlineComment ic e)) arr) d1)
              else Inr (Data_SetArray arr d1))
           else
             Inr (Data_SetArray
               (update_first (\<lambda>e. mKey e = key)
                  (\<lambda>e. Data_SetAddQuotes q
                          (Data_SetInlineComment ic (Data_SetValue v e)))
                  (mArray d1)) d1))"
    by (simp add: Data_SetArrayEntry_def ga Let_def)
  then show ?thesis
    using fresh
    by (simp only: un ToLower_to_string Let_def) (simp add: has_key_iff map_mKey_update_first update_first_append_new)
qed


lemma Section_SetArrayEntry_fresh:
  assumes "\<not> has_key (ToLower k) (mKeyValuePairs s)"
  shows "Section_SetArrayEntry k v q c ic ai h s =
     (case Data_SetArrayEntry (if h then ai else []) v q c ic (new_data_key (ToLower k) Array h False) of
        Inl e \<Rightarrow> Inl e
      | Inr a \<Rightarrow> Inr (s\<lparr> mKeyValuePairs := mKeyValuePairs s @ [a] \<rparr>))"
proof -
  have nk: "\<not> (\<exists>x\<in>set (mKeyValuePairs s). mKey x = ToLower k)"
    using assms by (simp add: has_key_iff)
  show ?thesis
    using assms
    by (simp add: Section_SetArrayEntry_def Let_def update_first_exn_append_new [OF nk]
          split: sum.splits)
qed

lemma Section_SetArrayEntry_last:
  assumes "\<not> has_key (ToLower k) xs" "mKeyValuePairs s = xs @ [a]" "mKey a = ToLower k"
  shows "Section_SetArrayEntry k v q c ic ai h s =
     (case Data_SetArrayEntry (if h then ai else []) v q c ic a of
        Inl e \<Rightarrow> Inl e
      | Inr a' \<Rightarrow> Inr (s\<lparr> mKeyValuePairs := xs @ [a'] \<rparr>))"
proof -
  have nk: "\<not> (\<exists>x\<in>set xs. mKey x = ToLower k)"
    using assms(1) by (simp add: has_key_iff)
  have hk: "has_key (ToLower k) (mKeyValuePairs s)"
    using assms(2,3) by (simp add: has_key_iff)
  show ?thesis
    using hk assms(3)
    by (simp add: Section_SetArrayEntry_def Let_def assms(2) update_first_exn_append_new [OF nk]
          split: sum.splits)
qed

lemma to_string_small:
  "to_string 0 = ''0''" "to_string 1 = ''1''" "to_string 2 = ''2''" "to_string 5 = ''5''"
  "to_string 6 = ''6''" "to_string (Suc 0) = ''1''"
  by code_simp+

lemma Data_SetArrayEntry_auto_at:
  assumes "map mKey (mArray d) = map to_string ns" "\<forall>n\<in>set ns. n < 2 ^ 32 - 1"
    and "(if ns = [] then 0 else Max (set ns) + 1) = i" "to_string i = ks"
    and "mKey d = kd" "mType d = td" "map mKey (mArray d) = ks0" "map mValue (mArray d) = vs0"
  shows "\<exists>d'. Data_SetArrayEntry [] v q c ic d = Inr d' \<and> mKey d' = kd \<and> mType d' = td
           \<and> map mKey (mArray d') = ks0 @ [ks] \<and> map mValue (mArray d') = vs0 @ [v]"
  using Data_SetArrayEntry_auto [OF assms(1,2), of v q c ic] unfolding assms(3) assms(4)
  using assms(5-8) by auto

lemma unindexed_three:
  assumes fresh: "\<not> has_key (ToLower k) (mKeyValuePairs s)"
  shows "\<exists>s1 s2 s3 a.
        Section_SetArrayEntry k v1 q1 c1 i1 x1 False s = Inr s1 \<and>
        Section_SetArrayEntry k v2 q2 c2 i2 x2 False s1 = Inr s2 \<and>
        Section_SetArrayEntry k v3 q3 c3 i3 x3 False s2 = Inr s3 \<and>
        mKeyValuePairs s3 = mKeyValuePairs s @ [a] \<and> mType a = Array \<and> mKey a = ToLower k \<and>
        map mKey (mArray a) = [''0'', ''1'', ''2''] \<and> map mValue (mArray a) = [v1, v2, v3]"
proof -
  let ?a0 = "new_data_key (ToLower k) Array False False"
  have "\<exists>a1. Data_SetArrayEntry [] v1 q1 c1 i1 ?a0 = Inr a1 \<and> mKey a1 = ToLower k \<and>
      mType a1 = Array \<and> map mKey (mArray a1) = [] @ [''0''] \<and> map mValue (mArray a1) = [] @ [v1]"
    by (rule Data_SetArrayEntry_auto_at [where ns = "[]" and i = 0]) (simp_all add: to_string_small)
  then obtain a1 where a1: "Data_SetArrayEntry [] v1 q1 c1 i1 ?a0 = Inr a1" "mKey a1 = ToLower k"
      "mType a1 = Array" "map mKey (mArray a1) = [''0'']" "map mValue (mArray a1) = [v1]"
    by auto
  have "\<exists>a2. Data_SetArrayEntry [] v2 q2 c2 i2 a1 = Inr a2 \<and> mKey a2 = ToLower k \<and>
      mType a2 = Array \<and> map mKey (mArray a2) = [''0''] @ [''1''] \<and> map mValue (mArray a2) = [v1] @ [v2]"
    by (rule Data_SetArrayEntry_auto_at [where ns = "[0]" and i = 1]) (simp_all add: to_string_small a1)
  then obtain a2 where a2: "Data_SetArrayEntry [] v2 q2 c2 i2 a1 = Inr a2" "mKey a2 = ToLower k"
      "mType a2 = Array" "map mKey (mArray a2) = [''0'', ''1'']" "map mValue (mArray a2) = [v1, v2]"
    by auto
  have "\<exists>a3. Data_SetArrayEntry [] v3 q3 c3 i3 a2 = Inr a3 \<and> mKey a3 = ToLower k \<and>
      mType a3 = Array \<and> map mKey (mArray a3) = [''0'', ''1''] @ [''2'']
      \<and> map mValue (mArray a3) = [v1, v2] @ [v3]"
    by (rule Data_SetArrayEntry_auto_at [where ns = "[0, 1]" and i = 2]) (simp_all add: to_string_small a2)
  then obtain a3 where a3: "Data_SetArrayEntry [] v3 q3 c3 i3 a2 = Inr a3" "mKey a3 = ToLower k"
      "mType a3 = Array" "map mKey (mArray a3) = [''0'', ''1'', ''2'']"
      "map mValue (mArray a3) = [v1, v2, v3]"
    by auto
  let ?s1 = "s\<lparr> mKeyValuePairs := mKeyValuePairs s @ [a1] \<rparr>"
  let ?s2 = "s\<lparr> mKeyValuePairs := mKeyValuePairs s @ [a2] \<rparr>"
  let ?s3 = "s\<lparr> mKeyValuePairs := mKeyValuePairs s @ [a3] \<rparr>"
  have e1: "Section_SetArrayEntry k v1 q1 c1 i1 x1 False s = Inr ?s1"
    by (simp add: Section_SetArrayEntry_fresh [OF fresh] a1)
  have e2: "Section_SetArrayEntry k v2 q2 c2 i2 x2 False ?s1 = Inr ?s2"
    by (simp add: Section_SetArrayEntry_last [OF fresh, of ?s1 a1] a1 a2)
  have e3: "Section_SetArrayEntry k v3 q3 c3 i3 x3 False ?s2 = Inr ?s3"
    by (simp add: Section_SetArrayEntry_last [OF fresh, of ?s2 a2] a2 a3)
  show ?thesis
    using e1 e2 e3 a3 by (intro exI [of _ ?s1] exI [of _ ?s2] exI [of _ ?s3] exI [of _ a3]) simp
qed

lemma ToLower_5: "ToLower ''5'' = ''5''"
  by code_simp

lemma explicit_then_unindexed:
  assumes fresh: "\<not> has_key (ToLower k) (mKeyValuePairs s)"
  shows "\<exists>s1 s2 a.
        Section_SetArrayEntry k v1 q1 c1 i1 ''5'' True s = Inr s1 \<and>
        Section_SetArrayEntry k v2 q2 c2 i2 x2 False s1 = Inr s2 \<and>
        mKeyValuePairs s2 = mKeyValuePairs s @ [a] \<and> mType a = Array \<and> mKey a = ToLower k \<and>
        map mKey (mArray a) = [''5'', ''6''] \<and> map mValue (mArray a) = [v1, v2]"
proof -
  let ?a0 = "new_data_key (ToLower k) Array True False"
  have f0: "\<not> has_key (ToLower ''5'') (mArray ?a0)" by (simp add: has_key_iff)
  have n5: "''5'' \<noteq> []" by simp
  obtain a1 where a1: "Data_SetArrayEntry ''5'' v1 q1 c1 i1 ?a0 = Inr a1" "mKey a1 = ToLower k"
      "mType a1 = Array" "map mKey (mArray a1) = [''5'']" "map mValue (mArray a1) = [v1]"
    using Data_SetArrayEntry_fresh_key [OF n5 f0, of v1 q1 c1 i1] by (auto simp: ToLower_5)
  have "\<exists>a2. Data_SetArrayEntry [] v2 q2 c2 i2 a1 = Inr a2 \<and> mKey a2 = ToLower k \<and>
      mType a2 = Array \<and> map mKey (mArray a2) = [''5''] @ [''6''] \<and> map mValue (mArray a2) = [v1] @ [v2]"
    by (rule Data_SetArrayEntry_auto_at [where ns = "[5]" and i = 6]) (simp_all add: to_string_small a1)
  then obtain a2 where a2: "Data_SetArrayEntry [] v2 q2 c2 i2 a1 = Inr a2" "mKey a2 = ToLower k"
      "mType a2 = Array" "map mKey (mArray a2) = [''5'', ''6'']" "map mValue (mArray a2) = [v1, v2]"
    by auto
  let ?s1 = "s\<lparr> mKeyValuePairs := mKeyValuePairs s @ [a1] \<rparr>"
  let ?s2 = "s\<lparr> mKeyValuePairs := mKeyValuePairs s @ [a2] \<rparr>"
  have e1: "Section_SetArrayEntry k v1 q1 c1 i1 ''5'' True s = Inr ?s1"
    by (simp add: Section_SetArrayEntry_fresh [OF fresh] a1)
  have e2: "Section_SetArrayEntry k v2 q2 c2 i2 x2 False ?s1 = Inr ?s2"
    by (simp add: Section_SetArrayEntry_last [OF fresh, of ?s1 a1] a1 a2)
  show ?thesis
    using e1 e2 a2 by (intro exI [of _ ?s1] exI [of _ ?s2] exI [of _ a2]) simp
qed

lemma GetArrayIndex_loop_append:
  "GetArrayIndex_loop acc (xs @ ys) =
     (case GetArrayIndex_loop acc xs of Inl x \<Rightarrow> Inl x | Inr a \<Rightarrow> GetArrayIndex_loop a ys)"
  by (induction xs arbitrary: acc) (auto simp: Let_def split: sum.splits)

lemma GetArrayIndex_loop_ok:
  "\<forall>p\<in>set xs. \<exists>k. stol (mKey p) = Inr k \<Longrightarrow> \<exists>a. GetArrayIndex_loop acc xs = Inr a"
  by (induction xs arbitrary: acc) (auto simp: Let_def)

lemma GetArrayIndex_loop_throw:
  assumes "\<forall>p\<in>set pre. \<exists>k. stol (mKey p) = Inr k" "stol (mKey e) = Inl x"
  shows "GetArrayIndex_loop acc (pre @ e # post) = Inl x"
proof -
  obtain a where "GetArrayIndex_loop acc pre = Inr a"
    using GetArrayIndex_loop_ok [OF assms(1)] by blast
  then show ?thesis by (simp add: GetArrayIndex_loop_append assms(2))
qed

lemma GetArrayIndex_loop_wrap:
  assumes "\<forall>p\<in>set pre. \<exists>k. stol (mKey p) = Inr k" "stol (mKey e) = Inr 4294967295"
  shows "GetArrayIndex_loop acc (pre @ [e]) = Inr 0"
proof -
  obtain a where a: "GetArrayIndex_loop acc pre = Inr a"
    using GetArrayIndex_loop_ok [OF assms(1)] by blast
  have m: "(4294967295 :: 32 word) = - 1" by simp
  have le: "a \<le> (4294967295 :: 32 word)" unfolding m by simp
  have z: "(4294967295 :: 32 word) + 1 = 0" by simp
  show ?thesis by (simp add: GetArrayIndex_loop_append assms(2) Let_def a le z)
qed
subsection \<open>Array auto-index\<close>

text \<open>
  Claim C7. Three unindexed insertions under an array key the section does not hold yet give
  the sub-keys 0, 1 and 2, in that order; an insertion with the explicit index 5 followed by an
  unindexed one gives the sub-keys 5 and 6. In general an unindexed insertion into an array
  whose sub-keys are the decimal indices \<open>ns\<close>, each below \<open>2^32 - 1\<close>, appends the sub-key
  \<open>Max ns + 1\<close>, and the sub-key 0 when the array is empty. That is not so for every array:
  \<open>GetArrayIndex\<close> counts in an \<open>unsigned int\<close>, so that when the last sub-key is 4294967295 the
  index it returns is 0, and it reads each sub-key with \<open>std::stol\<close>, so that the insertion
  throws what \<open>std::stol\<close> throws on the first sub-key it cannot read.
\<close>

theorem array_auto_index:
  "(\<not> has_key (ToLower k) (mKeyValuePairs s) \<longrightarrow>
      (\<exists>s1 s2 s3 a.
          Section_SetArrayEntry k v1 q1 c1 i1 x1 False s = Inr s1 \<and>
          Section_SetArrayEntry k v2 q2 c2 i2 x2 False s1 = Inr s2 \<and>
          Section_SetArrayEntry k v3 q3 c3 i3 x3 False s2 = Inr s3 \<and>
          mKeyValuePairs s3 = mKeyValuePairs s @ [a] \<and> mType a = Array \<and> mKey a = ToLower k \<and>
          map mKey (mArray a) = [''0'', ''1'', ''2''] \<and> map mValue (mArray a) = [v1, v2, v3]))
   \<and> (\<not> has_key (ToLower k) (mKeyValuePairs s) \<longrightarrow>
      (\<exists>s1 s2 a.
          Section_SetArrayEntry k v1 q1 c1 i1 ''5'' True s = Inr s1 \<and>
          Section_SetArrayEntry k v2 q2 c2 i2 x2 False s1 = Inr s2 \<and>
          mKeyValuePairs s2 = mKeyValuePairs s @ [a] \<and> mType a = Array \<and> mKey a = ToLower k \<and>
          map mKey (mArray a) = [''5'', ''6''] \<and> map mValue (mArray a) = [v1, v2]))
   \<and> (map mKey (mArray d) = map to_string ns \<and> (\<forall>n\<in>set ns. n < 2 ^ 32 - 1) \<longrightarrow>
      (\<exists>d'. Data_SetArrayEntry [] v q c ic d = Inr d' \<and>
            map mKey (mArray d') =
              map mKey (mArray d) @ [to_string (if ns = [] then 0 else Max (set ns) + 1)] \<and>
            map mValue (mArray d') = map mValue (mArray d) @ [v]))
   \<and> (mArray d = pre @ [e] \<and> (\<forall>p\<in>set pre. \<exists>n. stol (mKey p) = Inr n)
        \<and> stol (mKey e) = Inr 4294967295 \<longrightarrow>
      GetArrayIndex d = Inr (0, Data_SetArrayIndex 0 d))
   \<and> (mArray d = pre @ e # post \<and> (\<forall>p\<in>set pre. \<exists>n. stol (mKey p) = Inr n)
        \<and> stol (mKey e) = Inl x \<longrightarrow>
      Data_SetArrayEntry [] v q c ic d = Inl x)"
proof (intro conjI impI)
  assume "\<not> has_key (ToLower k) (mKeyValuePairs s)"
  then show "\<exists>s1 s2 s3 a.
          Section_SetArrayEntry k v1 q1 c1 i1 x1 False s = Inr s1 \<and>
          Section_SetArrayEntry k v2 q2 c2 i2 x2 False s1 = Inr s2 \<and>
          Section_SetArrayEntry k v3 q3 c3 i3 x3 False s2 = Inr s3 \<and>
          mKeyValuePairs s3 = mKeyValuePairs s @ [a] \<and> mType a = Array \<and> mKey a = ToLower k \<and>
          map mKey (mArray a) = [''0'', ''1'', ''2''] \<and> map mValue (mArray a) = [v1, v2, v3]"
    by (rule unindexed_three)
next
  assume "\<not> has_key (ToLower k) (mKeyValuePairs s)"
  then show "\<exists>s1 s2 a.
          Section_SetArrayEntry k v1 q1 c1 i1 ''5'' True s = Inr s1 \<and>
          Section_SetArrayEntry k v2 q2 c2 i2 x2 False s1 = Inr s2 \<and>
          mKeyValuePairs s2 = mKeyValuePairs s @ [a] \<and> mType a = Array \<and> mKey a = ToLower k \<and>
          map mKey (mArray a) = [''5'', ''6''] \<and> map mValue (mArray a) = [v1, v2]"
    by (rule explicit_then_unindexed)
next
  assume h: "map mKey (mArray d) = map to_string ns \<and> (\<forall>n\<in>set ns. n < 2 ^ 32 - 1)"
  then have k: "map mKey (mArray d) = map to_string ns"
    and b: "\<forall>n\<in>set ns. n < 2 ^ 32 - 1" by blast+
  show "\<exists>d'. Data_SetArrayEntry [] v q c ic d = Inr d' \<and>
            map mKey (mArray d') =
              map mKey (mArray d) @ [to_string (if ns = [] then 0 else Max (set ns) + 1)] \<and>
            map mValue (mArray d') = map mValue (mArray d) @ [v]"
    using Data_SetArrayEntry_auto [OF k b, of v q c ic] by blast
next
  assume h: "mArray d = pre @ [e] \<and> (\<forall>p\<in>set pre. \<exists>n. stol (mKey p) = Inr n)
        \<and> stol (mKey e) = Inr 4294967295"
  then have m: "mArray d = pre @ [e]" and p: "\<forall>p\<in>set pre. \<exists>n. stol (mKey p) = Inr n"
    and l: "stol (mKey e) = Inr 4294967295" by blast+
  show "GetArrayIndex d = Inr (0, Data_SetArrayIndex 0 d)"
    unfolding GetArrayIndex_def m by (simp add: GetArrayIndex_loop_wrap [OF p l])
next
  assume h: "mArray d = pre @ e # post \<and> (\<forall>p\<in>set pre. \<exists>n. stol (mKey p) = Inr n)
        \<and> stol (mKey e) = Inl x"
  then have m: "mArray d = pre @ e # post" and p: "\<forall>p\<in>set pre. \<exists>n. stol (mKey p) = Inr n"
    and l: "stol (mKey e) = Inl x" by blast+
  have "GetArrayIndex d = Inl x"
    unfolding GetArrayIndex_def m by (simp add: GetArrayIndex_loop_throw [OF p l])
  then show "Data_SetArrayEntry [] v q c ic d = Inl x"
    by (simp add: Data_SetArrayEntry_def)
qed

theorem array_auto_index_witness:
  "\<not> has_key (ToLower ''Arr'') (mKeyValuePairs (new_section ''sec''))
   \<and> (\<exists>s1 s2 s3 a.
          Section_SetArrayEntry ''Arr'' ''x'' False False [] [] False (new_section ''sec'') = Inr s1 \<and>
          Section_SetArrayEntry ''Arr'' ''y'' False False [] [] False s1 = Inr s2 \<and>
          Section_SetArrayEntry ''Arr'' ''z'' False False [] [] False s2 = Inr s3 \<and>
          mKeyValuePairs s3 = mKeyValuePairs (new_section ''sec'') @ [a] \<and> mType a = Array \<and>
          mKey a = ToLower ''Arr'' \<and>
          map mKey (mArray a) = [''0'', ''1'', ''2''] \<and> map mValue (mArray a) = [''x'', ''y'', ''z''])
   \<and> (\<exists>s1 s2 a.
          Section_SetArrayEntry ''Arr'' ''x'' False False [] ''5'' True (new_section ''sec'') = Inr s1 \<and>
          Section_SetArrayEntry ''Arr'' ''y'' False False [] [] False s1 = Inr s2 \<and>
          mKeyValuePairs s2 = mKeyValuePairs (new_section ''sec'') @ [a] \<and> mType a = Array \<and>
          mKey a = ToLower ''Arr'' \<and>
          map mKey (mArray a) = [''5'', ''6''] \<and> map mValue (mArray a) = [''x'', ''y''])
   \<and> (map mKey (mArray (havINIData Array ''arr'' [] None False 0 False
           [new_data ''3'' ''p'' Value False, new_data ''7'' ''q'' Value False]))
         = map to_string [3, 7] \<and> (3 :: nat) < 2 ^ 32 - 1 \<and> (7 :: nat) < 2 ^ 32 - 1)
   \<and> (\<exists>d'. Data_SetArrayEntry [] ''r'' False False []
              (havINIData Array ''arr'' [] None False 0 False
                 [new_data ''3'' ''p'' Value False, new_data ''7'' ''q'' Value False]) = Inr d' \<and>
            map mKey (mArray d') = [''3'', ''7'', ''8''] \<and>
            map mValue (mArray d') = [''p'', ''q'', ''r''])
   \<and> (mArray (havINIData Array ''arr'' [] None False 0 False
           [new_data ''3'' ''p'' Value False, new_data ''4294967295'' ''q'' Value False])
         = [new_data ''3'' ''p'' Value False] @ [new_data ''4294967295'' ''q'' Value False]
      \<and> stol (mKey (new_data ''3'' ''p'' Value False)) = Inr 3
      \<and> stol (mKey (new_data ''4294967295'' ''q'' Value False)) = Inr 4294967295)
   \<and> GetArrayIndex (havINIData Array ''arr'' [] None False 0 False
           [new_data ''3'' ''p'' Value False, new_data ''4294967295'' ''q'' Value False])
       = Inr (0, havINIData Array ''arr'' [] None False 0 False
           [new_data ''3'' ''p'' Value False, new_data ''4294967295'' ''q'' Value False])
   \<and> (mArray (havINIData Array ''arr'' [] None False 0 False
           [new_data ''3'' ''p'' Value False, new_data ''x'' ''q'' Value False,
            new_data ''4'' ''r'' Value False])
         = [new_data ''3'' ''p'' Value False] @ new_data ''x'' ''q'' Value False
             # [new_data ''4'' ''r'' Value False]
      \<and> stol (mKey (new_data ''3'' ''p'' Value False)) = Inr 3
      \<and> stol (mKey (new_data ''x'' ''q'' Value False)) = Inl invalid_argument)
   \<and> Data_SetArrayEntry [] ''s'' False False []
        (havINIData Array ''arr'' [] None False 0 False
           [new_data ''3'' ''p'' Value False, new_data ''x'' ''q'' Value False,
            new_data ''4'' ''r'' Value False])
       = Inl invalid_argument"
  (is "?h1 \<and> ?c1 \<and> ?c2 \<and> ?h3 \<and> ?c3 \<and> (?h4a \<and> ?h4b \<and> ?h4c) \<and> ?c4 \<and> (?h5a \<and> ?h5b \<and> ?h5c) \<and> ?c5")
proof -
  let ?d3 = "havINIData Array ''arr'' [] None False 0 False
         [new_data ''3'' ''p'' Value False, new_data ''7'' ''q'' Value False]"
  let ?d4 = "havINIData Array ''arr'' [] None False 0 False
         [new_data ''3'' ''p'' Value False, new_data ''4294967295'' ''q'' Value False]"
  let ?d5 = "havINIData Array ''arr'' [] None False 0 False
         [new_data ''3'' ''p'' Value False, new_data ''x'' ''q'' Value False,
          new_data ''4'' ''r'' Value False]"
  have h1: ?h1 by code_simp
  have ts: "to_string 3 = ''3''" "to_string 7 = ''7''" "to_string 8 = ''8''" by code_simp+
  have h3: ?h3 by (simp add: ts)
  have h4a: ?h4a by simp
  have h4b: ?h4b by code_simp
  have h4c: ?h4c by code_simp
  have h5a: ?h5a by simp
  have h5b: ?h5b by code_simp
  have h5c: ?h5c by code_simp
  note t3 = array_auto_index [of "''Arr''" "new_section ''sec''" "''x''" False False "[]" "[]"
      "''y''" False False "[]" "[]" "''z''" False False "[]" "[]" ?d3 "[3, 7]" "''r''" False False "[]"]
  have c1: ?c1 using t3 h1 by blast
  have c2: ?c2 using t3 h1 by blast
  have b: "\<forall>n\<in>set [3, 7 :: nat]. n < 2 ^ 32 - 1" by simp
  have "\<exists>d'. Data_SetArrayEntry [] ''r'' False False [] ?d3 = Inr d' \<and>
            map mKey (mArray d') =
              map mKey (mArray ?d3) @ [to_string (if [3, 7 :: nat] = [] then 0 else Max (set [3, 7]) + 1)] \<and>
            map mValue (mArray d') = map mValue (mArray ?d3) @ [''r'']"
    using t3 h3 b by blast
  then have c3: ?c3 by (simp add: ts)
  have p4: "\<forall>p\<in>set [new_data ''3'' ''p'' Value False]. \<exists>n. stol (mKey p) = Inr n"
    using h4b by simp
  have "GetArrayIndex ?d4 = Inr (0, Data_SetArrayIndex 0 ?d4)"
    by (rule array_auto_index [where d = ?d4 and pre = "[new_data ''3'' ''p'' Value False]"
          and e = "new_data ''4294967295'' ''q'' Value False",
          THEN conjunct2, THEN conjunct2, THEN conjunct2, THEN conjunct1, THEN mp])
       (intro conjI h4a p4 h4c)
  then have c4: ?c4 by (simp add: Data_SetArrayIndex_def)
  have c5: ?c5
    by (rule array_auto_index [where d = ?d5 and pre = "[new_data ''3'' ''p'' Value False]"
          and e = "new_data ''x'' ''q'' Value False" and post = "[new_data ''4'' ''r'' Value False]"
          and x = invalid_argument and v = "''s''" and q = False and c = False and ic = "[]",
          THEN conjunct2, THEN conjunct2, THEN conjunct2, THEN conjunct2, THEN mp])
       (intro conjI h5a p4 h5c)
  show ?thesis using h1 c1 c2 h3 c3 h4a h4b h4c c4 h5a h5b h5c c5 by blast
qed

text \<open>
  The counter that wraps, and the sub-key that is no number: after an element with the explicit
  index 4294967295 the next unindexed element gets the sub-key 0, not 4294967296; after an
  element with the explicit index \<open>x\<close> the next unindexed insertion throws
  \<open>std::invalid_argument\<close>.
\<close>

theorem array_auto_index_counterexample:
  "Section_SetArrayEntry ''a'' ''u'' False False [] ''4294967295'' True (new_section ''s'')
     = Inr ((new_section ''s'')\<lparr> mKeyValuePairs :=
          [havINIData Array ''a'' [] None True 0 False
             [havINIData Value ''4294967295'' ''u'' None False 0 False []]] \<rparr>)
   \<and> Section_SetArrayEntry ''a'' ''v'' False False [] [] False
       ((new_section ''s'')\<lparr> mKeyValuePairs :=
          [havINIData Array ''a'' [] None True 0 False
             [havINIData Value ''4294967295'' ''u'' None False 0 False []]] \<rparr>)
     = Inr ((new_section ''s'')\<lparr> mKeyValuePairs :=
          [havINIData Array ''a'' [] None True 0 False
             [havINIData Value ''4294967295'' ''u'' None False 0 False [],
              havINIData Value ''0'' ''v'' None False 0 False []]] \<rparr>)
   \<and> Section_SetArrayEntry ''a'' ''u'' False False [] ''x'' True (new_section ''s'')
     = Inr ((new_section ''s'')\<lparr> mKeyValuePairs :=
          [havINIData Array ''a'' [] None True 0 False
             [havINIData Value ''x'' ''u'' None False 0 False []]] \<rparr>)
   \<and> Section_SetArrayEntry ''a'' ''v'' False False [] [] False
       ((new_section ''s'')\<lparr> mKeyValuePairs :=
          [havINIData Array ''a'' [] None True 0 False
             [havINIData Value ''x'' ''u'' None False 0 False []]] \<rparr>)
     = Inl invalid_argument"
  by code_simp
subsection \<open>Byte-order mark\<close>

lemma read_chars_drop: "read_chars n k bytes = drop (n - k) bytes"
proof (induction bytes arbitrary: k)
  case Nil
  then show ?case by simp
next
  case (Cons c cs)
  show ?case
  proof (cases "k < n")
    case True
    then have "n - k = Suc (n - (k + 1))" by simp
    then show ?thesis using True Cons [of "k + 1"] by simp
  next
    case False
    then show ?thesis using Cons [of k] by simp
  qed
qed

lemma read_char16s_done: "0 < n \<Longrightarrow> n \<le> k \<Longrightarrow> read_char16s n k bytes = read_char16s 0 0 bytes"
  by (induction n k bytes rule: read_char16s.induct) auto

lemma read_char32s_done: "0 < n \<Longrightarrow> n \<le> k \<Longrightarrow> read_char32s n k bytes = read_char32s 0 0 bytes"
  by (induction n k bytes rule: read_char32s.induct) auto

lemma length_ge_6:
  "6 \<le> length bytes \<Longrightarrow> \<exists>a b c d e f r. bytes = a # b # c # d # e # f # r"
  by (auto simp: eval_nat_numeral Suc_le_length_iff)

lemma byte_at_Cons:
  "byte_at (a # b # c # d # r) 0 = a" "byte_at (a # b # c # d # r) 1 = b"
  "byte_at (a # b # c # d # r) 2 = c" "byte_at (a # b # c # d # r) 3 = d"
  by (simp_all add: byte_at_def eval_nat_numeral)


lemma read_char16s_skip2: "read_char16s 2 0 (a # b # cs) = read_char16s 0 0 cs"
  by (simp add: read_char16s_done)

lemma read_char32s_skip4: "read_char32s 4 0 (a # b # c # d # cs) = read_char32s 0 0 cs"
  by (simp add: read_char32s_done)

lemma take_Cons_numeral:
  "take 2 (a # b # r) = [a, b]" "take 3 (a # b # c # r) = [a, b, c]"
  "take 4 (a # b # c # d # r) = [a, b, c, d]"
  by (simp_all add: eval_nat_numeral)

lemma drop_Cons_numeral:
  "drop 2 (a # b # r) = r" "drop 3 (a # b # c # r) = r"
  "drop 4 (a # b # c # d # r) = r"
  by (simp_all add: eval_nat_numeral)

lemma match_BOM_Cons:
  "match_BOM (b0 # b1 # b2 # b3 # r) =
     (if b0 = CHR 0xFF \<and> b1 = CHR 0xFE \<and> b2 = CHR 0x00 \<and> b3 = CHR 0x00 then (UTF32LE, 4)
         else if b0 = CHR 0x00 \<and> b1 = CHR 0x00 \<and> b2 = CHR 0xFE \<and> b3 = CHR 0xFF then (UTF32BE, 4)
         else if b0 = CHR 0xFF \<and> b1 = CHR 0xFE then (UTF16LE, 2)
         else if b0 = CHR 0xFE \<and> b1 = CHR 0xFF then (UTF16BE, 2)
         else if b0 = CHR 0xEF \<and> b1 = CHR 0xBB \<and> b2 = CHR 0xBF then (UTF8, 3)
         else (None_BOM, 0))"
  unfolding match_BOM_def Let_def byte_at_Cons ..

lemma detect_encoding_cases:
  "detect_encoding bytes = (if fst (match_BOM bytes) = None_BOM then (guess_encoding bytes, snd (match_BOM bytes)) else match_BOM bytes)"
  by (cases "match_BOM bytes"; cases "fst (match_BOM bytes)") (auto simp: detect_encoding_def)

text \<open>
  Claim C5, as amended. For a buffer of at least 6 bytes the first four bytes are matched in the
  order UTF-32LE (FF FE 00 00), UTF-32BE (00 00 FE FF), UTF-16LE (FF FE), UTF-16BE (FE FF),
  UTF-8 (EF BB BF), so that FF FE 00 00 is UTF-32LE and never UTF-16LE, and the content that
  \<open>ParseFile\<close> reads (\<open>read_contents\<close>) is what the decoder of that type makes of the buffer
  without its first 4, 4, 2, 2 or 3 bytes: 32-bit units, byte-swapped for UTF-32BE, 16-bit
  units, byte-swapped for UTF-16BE, or the bytes themselves. When no mark matches nothing is
  skipped and the type is the guess made from the zero bytes, which is not always \<open>None\<close>: the
  whole buffer is then read in the units of the guessed type.
\<close>

theorem detect_encoding_BOM:
  assumes "6 \<le> length bytes"
  shows "(take 4 bytes = [CHR 0xFF, CHR 0xFE, CHR 0x00, CHR 0x00] \<longrightarrow> detect_encoding bytes = (UTF32LE, 4))
    \<and> (take 4 bytes = [CHR 0x00, CHR 0x00, CHR 0xFE, CHR 0xFF] \<longrightarrow> detect_encoding bytes = (UTF32BE, 4))
    \<and> (take 2 bytes = [CHR 0xFF, CHR 0xFE] \<and> take 4 bytes \<noteq> [CHR 0xFF, CHR 0xFE, CHR 0x00, CHR 0x00]
          \<longrightarrow> detect_encoding bytes = (UTF16LE, 2))
    \<and> (take 2 bytes = [CHR 0xFE, CHR 0xFF] \<longrightarrow> detect_encoding bytes = (UTF16BE, 2))
    \<and> (take 3 bytes = [CHR 0xEF, CHR 0xBB, CHR 0xBF] \<longrightarrow> detect_encoding bytes = (UTF8, 3))
    \<and> (take 2 bytes \<noteq> [CHR 0xFF, CHR 0xFE] \<and> take 2 bytes \<noteq> [CHR 0xFE, CHR 0xFF]
         \<and> take 3 bytes \<noteq> [CHR 0xEF, CHR 0xBB, CHR 0xBF]
         \<and> take 4 bytes \<noteq> [CHR 0x00, CHR 0x00, CHR 0xFE, CHR 0xFF]
          \<longrightarrow> match_BOM bytes = (None_BOM, 0) \<and> detect_encoding bytes = (guess_encoding bytes, 0))
    \<and> read_chars (snd (detect_encoding bytes)) 0 bytes = drop (snd (detect_encoding bytes)) bytes
    \<and> (fst (match_BOM bytes) = UTF16LE \<or> fst (match_BOM bytes) = UTF16BE \<longrightarrow>
          read_char16s (snd (detect_encoding bytes)) 0 bytes = read_char16s 0 0 (drop 2 bytes))
    \<and> (fst (match_BOM bytes) = UTF32LE \<or> fst (match_BOM bytes) = UTF32BE \<longrightarrow>
          read_char32s (snd (detect_encoding bytes)) 0 bytes = read_char32s 0 0 (drop 4 bytes))
    \<and> (take 4 bytes = [CHR 0xFF, CHR 0xFE, CHR 0x00, CHR 0x00] \<longrightarrow>
          read_contents to_bytes16 to_bytes32 bytes = to_bytes32 (read_char32s 0 0 (drop 4 bytes)))
    \<and> (take 4 bytes = [CHR 0x00, CHR 0x00, CHR 0xFE, CHR 0xFF] \<longrightarrow>
          read_contents to_bytes16 to_bytes32 bytes
            = to_bytes32 (map swap32 (read_char32s 0 0 (drop 4 bytes))))
    \<and> (take 2 bytes = [CHR 0xFF, CHR 0xFE] \<and> take 4 bytes \<noteq> [CHR 0xFF, CHR 0xFE, CHR 0x00, CHR 0x00]
          \<longrightarrow> read_contents to_bytes16 to_bytes32 bytes = to_bytes16 (read_char16s 0 0 (drop 2 bytes)))
    \<and> (take 2 bytes = [CHR 0xFE, CHR 0xFF] \<longrightarrow>
          read_contents to_bytes16 to_bytes32 bytes
            = to_bytes16 (map swap16 (read_char16s 0 0 (drop 2 bytes))))
    \<and> (take 3 bytes = [CHR 0xEF, CHR 0xBB, CHR 0xBF] \<longrightarrow>
          read_contents to_bytes16 to_bytes32 bytes = Inr (drop 3 bytes))
    \<and> (take 2 bytes \<noteq> [CHR 0xFF, CHR 0xFE] \<and> take 2 bytes \<noteq> [CHR 0xFE, CHR 0xFF]
         \<and> take 3 bytes \<noteq> [CHR 0xEF, CHR 0xBB, CHR 0xBF]
         \<and> take 4 bytes \<noteq> [CHR 0x00, CHR 0x00, CHR 0xFE, CHR 0xFF]
          \<longrightarrow> read_contents to_bytes16 to_bytes32 bytes =
                (if guess_encoding bytes = UTF32LE then to_bytes32 (read_char32s 0 0 bytes)
                 else if guess_encoding bytes = UTF32BE then to_bytes32 (map swap32 (read_char32s 0 0 bytes))
                 else if guess_encoding bytes = UTF16LE then to_bytes16 (read_char16s 0 0 bytes)
                 else if guess_encoding bytes = UTF16BE then to_bytes16 (map swap16 (read_char16s 0 0 bytes))
                 else Inr bytes))"
proof -
  obtain b0 b1 b2 b3 b4 b5 r where b: "bytes = b0 # b1 # b2 # b3 # b4 # b5 # r"
    using length_ge_6 [OF assms] by blast
  have m: "match_BOM bytes =
     (if b0 = CHR 0xFF \<and> b1 = CHR 0xFE \<and> b2 = CHR 0x00 \<and> b3 = CHR 0x00 then (UTF32LE, 4)
         else if b0 = CHR 0x00 \<and> b1 = CHR 0x00 \<and> b2 = CHR 0xFE \<and> b3 = CHR 0xFF then (UTF32BE, 4)
         else if b0 = CHR 0xFF \<and> b1 = CHR 0xFE then (UTF16LE, 2)
         else if b0 = CHR 0xFE \<and> b1 = CHR 0xFF then (UTF16BE, 2)
         else if b0 = CHR 0xEF \<and> b1 = CHR 0xBB \<and> b2 = CHR 0xBF then (UTF8, 3)
         else (None_BOM, 0))"
    unfolding b by (rule match_BOM_Cons)
  have t: "take 2 bytes = [b0, b1]" "take 3 bytes = [b0, b1, b2]" "take 4 bytes = [b0, b1, b2, b3]"
    unfolding b by (rule take_Cons_numeral)+
  have c1: "take 4 bytes = [CHR 0xFF, CHR 0xFE, CHR 0x00, CHR 0x00] \<longrightarrow> detect_encoding bytes = (UTF32LE, 4)"
    by (auto simp: t detect_encoding_cases m)
  have c2: "take 4 bytes = [CHR 0x00, CHR 0x00, CHR 0xFE, CHR 0xFF] \<longrightarrow> detect_encoding bytes = (UTF32BE, 4)"
    by (auto simp: t detect_encoding_cases m)
  have c3: "take 2 bytes = [CHR 0xFF, CHR 0xFE] \<and> take 4 bytes \<noteq> [CHR 0xFF, CHR 0xFE, CHR 0x00, CHR 0x00]
          \<longrightarrow> detect_encoding bytes = (UTF16LE, 2)"
    by (auto simp: t detect_encoding_cases m)
  have c4: "take 2 bytes = [CHR 0xFE, CHR 0xFF] \<longrightarrow> detect_encoding bytes = (UTF16BE, 2)"
    by (auto simp: t detect_encoding_cases m)
  have c5: "take 3 bytes = [CHR 0xEF, CHR 0xBB, CHR 0xBF] \<longrightarrow> detect_encoding bytes = (UTF8, 3)"
    by (auto simp: t detect_encoding_cases m)
  have c6: "take 2 bytes \<noteq> [CHR 0xFF, CHR 0xFE] \<and> take 2 bytes \<noteq> [CHR 0xFE, CHR 0xFF]
         \<and> take 3 bytes \<noteq> [CHR 0xEF, CHR 0xBB, CHR 0xBF]
         \<and> take 4 bytes \<noteq> [CHR 0x00, CHR 0x00, CHR 0xFE, CHR 0xFF]
          \<longrightarrow> match_BOM bytes = (None_BOM, 0) \<and> detect_encoding bytes = (guess_encoding bytes, 0)"
    by (auto simp: t detect_encoding_cases m)
  have c7: "read_chars (snd (detect_encoding bytes)) 0 bytes = drop (snd (detect_encoding bytes)) bytes"
    by (simp only: read_chars_drop diff_zero)
  have snd16: "fst (match_BOM bytes) = UTF16LE \<or> fst (match_BOM bytes) = UTF16BE
      \<Longrightarrow> snd (detect_encoding bytes) = 2"
    unfolding detect_encoding_cases m by (simp split: if_splits)
  have snd32: "fst (match_BOM bytes) = UTF32LE \<or> fst (match_BOM bytes) = UTF32BE
      \<Longrightarrow> snd (detect_encoding bytes) = 4"
    unfolding detect_encoding_cases m by (simp split: if_splits)
  have r16: "read_char16s 2 0 bytes = read_char16s 0 0 (drop 2 bytes)"
    unfolding b by (simp only: read_char16s_skip2 drop_Cons_numeral)
  have r32: "read_char32s 4 0 bytes = read_char32s 0 0 (drop 4 bytes)"
    unfolding b by (simp only: read_char32s_skip4 drop_Cons_numeral)
  have c8: "fst (match_BOM bytes) = UTF16LE \<or> fst (match_BOM bytes) = UTF16BE \<longrightarrow>
          read_char16s (snd (detect_encoding bytes)) 0 bytes = read_char16s 0 0 (drop 2 bytes)"
  proof
    assume "fst (match_BOM bytes) = UTF16LE \<or> fst (match_BOM bytes) = UTF16BE"
    then have "snd (detect_encoding bytes) = 2" by (rule snd16)
    then show "read_char16s (snd (detect_encoding bytes)) 0 bytes = read_char16s 0 0 (drop 2 bytes)"
      by (simp only: r16)
  qed
  have c9: "fst (match_BOM bytes) = UTF32LE \<or> fst (match_BOM bytes) = UTF32BE \<longrightarrow>
          read_char32s (snd (detect_encoding bytes)) 0 bytes = read_char32s 0 0 (drop 4 bytes)"
  proof
    assume "fst (match_BOM bytes) = UTF32LE \<or> fst (match_BOM bytes) = UTF32BE"
    then have "snd (detect_encoding bytes) = 4" by (rule snd32)
    then show "read_char32s (snd (detect_encoding bytes)) 0 bytes = read_char32s 0 0 (drop 4 bytes)"
      by (simp only: r32)
  qed
  have r0: "read_chars 0 0 bytes = bytes" "read_chars 3 0 bytes = drop 3 bytes"
    by (simp_all only: read_chars_drop diff_zero drop_0)
  have g: "guess_encoding bytes \<noteq> UTF8"
    by (simp add: guess_encoding_def Let_def)
  have d1: "take 4 bytes = [CHR 0xFF, CHR 0xFE, CHR 0x00, CHR 0x00] \<longrightarrow>
          read_contents to_bytes16 to_bytes32 bytes = to_bytes32 (read_char32s 0 0 (drop 4 bytes))"
    using c1 by (auto simp: read_contents_def r32)
  have d2: "take 4 bytes = [CHR 0x00, CHR 0x00, CHR 0xFE, CHR 0xFF] \<longrightarrow>
          read_contents to_bytes16 to_bytes32 bytes
            = to_bytes32 (map swap32 (read_char32s 0 0 (drop 4 bytes)))"
    using c2 by (auto simp: read_contents_def r32)
  have d3: "take 2 bytes = [CHR 0xFF, CHR 0xFE] \<and> take 4 bytes \<noteq> [CHR 0xFF, CHR 0xFE, CHR 0x00, CHR 0x00]
          \<longrightarrow> read_contents to_bytes16 to_bytes32 bytes = to_bytes16 (read_char16s 0 0 (drop 2 bytes))"
    using c3 by (auto simp: read_contents_def r16)
  have d4: "take 2 bytes = [CHR 0xFE, CHR 0xFF] \<longrightarrow>
          read_contents to_bytes16 to_bytes32 bytes
            = to_bytes16 (map swap16 (read_char16s 0 0 (drop 2 bytes)))"
    using c4 by (auto simp: read_contents_def r16)
  have d5: "take 3 bytes = [CHR 0xEF, CHR 0xBB, CHR 0xBF] \<longrightarrow>
          read_contents to_bytes16 to_bytes32 bytes = Inr (drop 3 bytes)"
    using c5 by (auto simp: read_contents_def r0)
  have d6: "take 2 bytes \<noteq> [CHR 0xFF, CHR 0xFE] \<and> take 2 bytes \<noteq> [CHR 0xFE, CHR 0xFF]
         \<and> take 3 bytes \<noteq> [CHR 0xEF, CHR 0xBB, CHR 0xBF]
         \<and> take 4 bytes \<noteq> [CHR 0x00, CHR 0x00, CHR 0xFE, CHR 0xFF]
          \<longrightarrow> read_contents to_bytes16 to_bytes32 bytes =
                (if guess_encoding bytes = UTF32LE then to_bytes32 (read_char32s 0 0 bytes)
                 else if guess_encoding bytes = UTF32BE then to_bytes32 (map swap32 (read_char32s 0 0 bytes))
                 else if guess_encoding bytes = UTF16LE then to_bytes16 (read_char16s 0 0 bytes)
                 else if guess_encoding bytes = UTF16BE then to_bytes16 (map swap16 (read_char16s 0 0 bytes))
                 else Inr bytes)"
  proof
    assume "take 2 bytes \<noteq> [CHR 0xFF, CHR 0xFE] \<and> take 2 bytes \<noteq> [CHR 0xFE, CHR 0xFF]
         \<and> take 3 bytes \<noteq> [CHR 0xEF, CHR 0xBB, CHR 0xBF]
         \<and> take 4 bytes \<noteq> [CHR 0x00, CHR 0x00, CHR 0xFE, CHR 0xFF]"
    then have de: "detect_encoding bytes = (guess_encoding bytes, 0)" using c6 by blast
    show "read_contents to_bytes16 to_bytes32 bytes =
                (if guess_encoding bytes = UTF32LE then to_bytes32 (read_char32s 0 0 bytes)
                 else if guess_encoding bytes = UTF32BE then to_bytes32 (map swap32 (read_char32s 0 0 bytes))
                 else if guess_encoding bytes = UTF16LE then to_bytes16 (read_char16s 0 0 bytes)
                 else if guess_encoding bytes = UTF16BE then to_bytes16 (map swap16 (read_char16s 0 0 bytes))
                 else Inr bytes)"
      unfolding read_contents_def de using g
      by (cases "guess_encoding bytes") (simp_all add: r0)
  qed
  show ?thesis
    by (intro conjI) (rule c1 c2 c3 c4 c5 c6 c7 c8 c9 d1 d2 d3 d4 d5 d6)+
qed

theorem detect_encoding_BOM_witness:
  "(6 \<le> length [CHR 0xFF, CHR 0xFE, CHR 0x00, CHR 0x00, CHR 0x41, CHR 0x00, CHR 0x00, CHR 0x00]
    \<and> take 4 [CHR 0xFF, CHR 0xFE, CHR 0x00, CHR 0x00, CHR 0x41, CHR 0x00, CHR 0x00, CHR 0x00]
         = [CHR 0xFF, CHR 0xFE, CHR 0x00, CHR 0x00]
    \<and> detect_encoding [CHR 0xFF, CHR 0xFE, CHR 0x00, CHR 0x00, CHR 0x41, CHR 0x00, CHR 0x00, CHR 0x00]
         = (UTF32LE, 4)
    \<and> read_chars (snd (detect_encoding
            [CHR 0xFF, CHR 0xFE, CHR 0x00, CHR 0x00, CHR 0x41, CHR 0x00, CHR 0x00, CHR 0x00])) 0
            [CHR 0xFF, CHR 0xFE, CHR 0x00, CHR 0x00, CHR 0x41, CHR 0x00, CHR 0x00, CHR 0x00]
         = drop (snd (detect_encoding
            [CHR 0xFF, CHR 0xFE, CHR 0x00, CHR 0x00, CHR 0x41, CHR 0x00, CHR 0x00, CHR 0x00]))
            [CHR 0xFF, CHR 0xFE, CHR 0x00, CHR 0x00, CHR 0x41, CHR 0x00, CHR 0x00, CHR 0x00]
    \<and> read_contents (\<lambda>ws. Inr (map (\<lambda>w. char_of (unat w)) ws)) (\<lambda>ws. Inr (map (\<lambda>w. char_of (unat w)) ws))
         [CHR 0xFF, CHR 0xFE, CHR 0x00, CHR 0x00, CHR 0x41, CHR 0x00, CHR 0x00, CHR 0x00]
         = Inr ''A'')
   \<and> (6 \<le> length [CHR 0xEF, CHR 0xBB, CHR 0xBF, CHR ''a'', CHR ''='', CHR ''1'']
    \<and> take 3 [CHR 0xEF, CHR 0xBB, CHR 0xBF, CHR ''a'', CHR ''='', CHR ''1''] = [CHR 0xEF, CHR 0xBB, CHR 0xBF]
    \<and> detect_encoding [CHR 0xEF, CHR 0xBB, CHR 0xBF, CHR ''a'', CHR ''='', CHR ''1''] = (UTF8, 3)
    \<and> read_contents (\<lambda>ws. Inl range_error) (\<lambda>ws. Inl range_error)
         [CHR 0xEF, CHR 0xBB, CHR 0xBF, CHR ''a'', CHR ''='', CHR ''1''] = Inr ''a=1'')
   \<and> (6 \<le> length [CHR 0xFF, CHR 0xFE, CHR 0x41, CHR 0x00, CHR 0x42, CHR 0x00]
    \<and> take 2 [CHR 0xFF, CHR 0xFE, CHR 0x41, CHR 0x00, CHR 0x42, CHR 0x00] = [CHR 0xFF, CHR 0xFE]
    \<and> take 4 [CHR 0xFF, CHR 0xFE, CHR 0x41, CHR 0x00, CHR 0x42, CHR 0x00]
         \<noteq> [CHR 0xFF, CHR 0xFE, CHR 0x00, CHR 0x00]
    \<and> detect_encoding [CHR 0xFF, CHR 0xFE, CHR 0x41, CHR 0x00, CHR 0x42, CHR 0x00] = (UTF16LE, 2)
    \<and> read_contents (\<lambda>ws. Inr (map (\<lambda>w. char_of (unat w)) ws)) (\<lambda>ws. Inr (map (\<lambda>w. char_of (unat w)) ws))
         [CHR 0xFF, CHR 0xFE, CHR 0x41, CHR 0x00, CHR 0x42, CHR 0x00] = Inr ''AB'')
   \<and> (6 \<le> length [CHR 0xFE, CHR 0xFF, CHR 0x00, CHR 0x41, CHR 0x00, CHR 0x42]
    \<and> take 2 [CHR 0xFE, CHR 0xFF, CHR 0x00, CHR 0x41, CHR 0x00, CHR 0x42] = [CHR 0xFE, CHR 0xFF]
    \<and> read_contents (\<lambda>ws. Inr (map (\<lambda>w. char_of (unat w)) ws)) (\<lambda>ws. Inr (map (\<lambda>w. char_of (unat w)) ws))
         [CHR 0xFE, CHR 0xFF, CHR 0x00, CHR 0x41, CHR 0x00, CHR 0x42] = Inr ''AB'')
   \<and> (6 \<le> length ''key=42''
    \<and> take 2 ''key=42'' \<noteq> [CHR 0xFF, CHR 0xFE] \<and> take 2 ''key=42'' \<noteq> [CHR 0xFE, CHR 0xFF]
    \<and> take 3 ''key=42'' \<noteq> [CHR 0xEF, CHR 0xBB, CHR 0xBF]
    \<and> take 4 ''key=42'' \<noteq> [CHR 0x00, CHR 0x00, CHR 0xFE, CHR 0xFF]
    \<and> detect_encoding ''key=42'' = (None_BOM, 0)
    \<and> read_contents (\<lambda>ws. Inl range_error) (\<lambda>ws. Inl range_error) ''key=42'' = Inr ''key=42'')"
  (is "(?l1 \<and> ?h1 \<and> ?c1 \<and> ?r1 \<and> ?d1) \<and> (?l2 \<and> ?h2 \<and> ?c2 \<and> ?d2) \<and> (?l3 \<and> ?h3a \<and> ?h3b \<and> ?c3 \<and> ?d3)
       \<and> (?l4 \<and> ?h4 \<and> ?d4) \<and> (?l5 \<and> ?h5a \<and> ?h5b \<and> ?h5c \<and> ?h5d \<and> ?c5 \<and> ?d5)")
proof -
  let ?u = "\<lambda>ws. Inr (map (\<lambda>w. char_of (unat w)) ws)"
  let ?e = "\<lambda>ws. Inl range_error"
  let ?b1 = "[CHR 0xFF, CHR 0xFE, CHR 0x00, CHR 0x00, CHR 0x41, CHR 0x00, CHR 0x00, CHR 0x00]"
  let ?b2 = "[CHR 0xEF, CHR 0xBB, CHR 0xBF, CHR ''a'', CHR ''='', CHR ''1'']"
  let ?b3 = "[CHR 0xFF, CHR 0xFE, CHR 0x41, CHR 0x00, CHR 0x42, CHR 0x00]"
  let ?b4 = "[CHR 0xFE, CHR 0xFF, CHR 0x00, CHR 0x41, CHR 0x00, CHR 0x42]"
  have co: "char_of (65 :: nat) = CHR ''A''" "char_of (66 :: nat) = CHR ''B''" by code_simp+
  have l1: ?l1 and l2: ?l2 and l3: ?l3 and l4: ?l4 and l5: ?l5 by simp_all
  have h1: ?h1 and h2: ?h2 and h3a: ?h3a and h3b: ?h3b and h4: ?h4
    by (simp_all add: eval_nat_numeral)
  have h5a: ?h5a and h5b: ?h5b and h5c: ?h5c and h5d: ?h5d by code_simp+
  have c1: ?c1 and r1: ?r1
    using detect_encoding_BOM [OF l1] h1 by blast+
  have "read_contents ?u ?u ?b1 = ?u (read_char32s 0 0 (drop 4 ?b1))"
    using detect_encoding_BOM [OF l1, of ?u ?u] h1 by blast
  also have "\<dots> = Inr ''A''" by (simp add: drop_Cons_numeral char32_def co)
  finally have d1: ?d1 .
  have c2: ?c2
    using detect_encoding_BOM [OF l2] h2 by blast
  have "read_contents ?e ?e ?b2 = Inr (drop 3 ?b2)"
    using detect_encoding_BOM [OF l2, of ?e ?e] h2 by blast
  also have "\<dots> = Inr ''a=1''" by (simp add: drop_Cons_numeral)
  finally have d2: ?d2 .
  have c3: ?c3
    using detect_encoding_BOM [OF l3] h3a h3b by blast
  have "read_contents ?u ?u ?b3 = ?u (read_char16s 0 0 (drop 2 ?b3))"
    using detect_encoding_BOM [OF l3, of ?u ?u] h3a h3b by blast
  also have "\<dots> = Inr ''AB''" by (simp add: drop_Cons_numeral char16_def swap16_def co)
  finally have d3: ?d3 .
  have "read_contents ?u ?u ?b4 = ?u (map swap16 (read_char16s 0 0 (drop 2 ?b4)))"
    using detect_encoding_BOM [OF l4, of ?u ?u] h4 by blast
  also have "\<dots> = Inr ''AB''" by (simp add: drop_Cons_numeral char16_def swap16_def co)
  finally have d4: ?d4 .
  have g5: "guess_encoding ''key=42'' = None_BOM" by code_simp
  have "match_BOM ''key=42'' = (None_BOM, 0) \<and> detect_encoding ''key=42'' = (guess_encoding ''key=42'', 0)"
    using detect_encoding_BOM [OF l5] h5a h5b h5c h5d by blast
  then have c5: ?c5 by (simp only: g5)
  have "read_contents ?e ?e ''key=42'' =
                (if guess_encoding ''key=42'' = UTF32LE then ?e (read_char32s 0 0 ''key=42'')
                 else if guess_encoding ''key=42'' = UTF32BE then ?e (map swap32 (read_char32s 0 0 ''key=42''))
                 else if guess_encoding ''key=42'' = UTF16LE then ?e (read_char16s 0 0 ''key=42'')
                 else if guess_encoding ''key=42'' = UTF16BE then ?e (map swap16 (read_char16s 0 0 ''key=42''))
                 else Inr ''key=42'')"
    using detect_encoding_BOM [OF l5, of ?e ?e] h5a h5b h5c h5d by blast
  then have d5: ?d5 by (simp add: g5)
  show ?thesis
    by (intro conjI) (rule l1 h1 c1 r1 d1 l2 h2 c2 d2 l3 h3a h3b c3 d3 l4 h4 d4 l5 h5a h5b h5c h5d c5 d5)+
qed

text \<open>
  The claim as it was stated fails on a buffer without a mark: \<open>A\<close>, \<open>B\<close>, \<open>C\<close> in UTF-16LE
  matches none of the five patterns, is classified UTF-16LE all the same, and no byte is skipped.
\<close>

theorem detect_encoding_counterexample:
  "match_BOM [CHR 0x41, CHR 0x00, CHR 0x42, CHR 0x00, CHR 0x43, CHR 0x00] = (None_BOM, 0)
   \<and> detect_encoding [CHR 0x41, CHR 0x00, CHR 0x42, CHR 0x00, CHR 0x43, CHR 0x00] = (UTF16LE, 0)
   \<and> fst (detect_encoding [CHR 0x41, CHR 0x00, CHR 0x42, CHR 0x00, CHR 0x43, CHR 0x00]) \<noteq> None_BOM
   \<and> snd (detect_encoding [CHR 0x41, CHR 0x00, CHR 0x42, CHR 0x00, CHR 0x43, CHR 0x00]) \<noteq> 2
   \<and> 6 \<le> length [CHR 0x41, CHR 0x00, CHR 0x42, CHR 0x00, CHR 0x43, CHR 0x00]"
  by code_simp
subsection \<open>Lines and escapes\<close>

text \<open>
  Claim C4 says that a lone carriage return ends a line like a line feed does. The code
  advances the index before it looks one character ahead, so the character after a carriage
  return is never read: in \<open>a CR b LF\<close> the \<open>b\<close> is lost, and two carriage returns in a row
  give one line break. Line feeds and CR LF pairs come out as the claim says.
\<close>

theorem lone_CR_eats_next_char:
  "segment_lines [CHR ''a'', CHR 0x0D, CHR ''b'', CHR 0x0A] = Inr [[CHR ''a'', CHR 0x0A], [CHR 0x0A]]
   \<and> segment_lines [CHR ''a'', CHR 0x0D, CHR 0x0D, CHR ''b''] = Inr [[CHR ''a'', CHR 0x0A], [CHR ''b'', CHR 0x0A]]
   \<and> segment_lines [CHR ''a'', CHR 0x0A, CHR ''b'', CHR 0x0A] = Inr [[CHR ''a'', CHR 0x0A], [CHR ''b'', CHR 0x0A]]
   \<and> segment_lines [CHR ''a'', CHR 0x0D, CHR 0x0A, CHR ''b'', CHR 0x0D, CHR 0x0A]
       = Inr [[CHR ''a'', CHR 0x0A], [CHR ''b'', CHR 0x0A]]"
  by code_simp

text \<open>
  Claim C3 says that the decoder replaces the named escapes. The decoder knows \<open>\x\<close> only:
  a backslash before any other character, the eight named letters included, throws
  \<open>Invalid escape character!\<close>, although \<open>ConvertToEscapedString\<close> writes these escapes.
\<close>

theorem named_escapes_throw:
  "map (\<lambda>c. segment_lines ([CHR ''k'', CHR ''='', CHR ''a'', CHR 0x5C, c, CHR ''b'', CHR 0x0A]))
     [CHR 0x22, CHR 0x5C, CHR ''b'', CHR ''f'', CHR ''n'', CHR ''r'', CHR ''t'', CHR ''v'']
   = replicate 8 (Inl (runtime_error ''Invalid escape character!''))
   \<and> segment_lines ([CHR ''k'', CHR ''='', CHR 0x5C] @ ''x0041'' @ [CHR 0x0A]) = Inr [''k=A'' @ [CHR 0x0A]]"
  by code_simp
subsection \<open>Case folding while parsing\<close>

subsection \<open>The return value of ParseFile\<close>

text \<open>
  Claim C10, as amended. When \<open>ParseFile\<close> returns, it returns true exactly when the file was
  opened and holds at least 6 bytes: a structural error in a line is printed and does not
  change the return value. The function does not always return: the decoding loop and the
  array index throw.
\<close>

theorem ParseFile_return_value:
  "ParseFile to_bytes16 to_bytes32 file stream = Inr (b, stream', out) \<Longrightarrow>
   b = (case file of None \<Rightarrow> False | Some bytes \<Rightarrow> 6 \<le> length bytes)"
  by (auto simp: ParseFile_def split: option.splits if_splits sum.splits)

theorem ParseFile_return_value_witness:
  "ParseFile (\<lambda>u. Inl range_error) (\<lambda>u. Inl range_error)
     (Some (''a=1'' @ [CHR 0x0A] @ ''novalue'' @ [CHR 0x0A] @ ''z=1'' @ [CHR 0x0A])) new_stream
   = Inr (True,
      new_stream \<lparr> mData :=
        [(new_section ''hi_global'') \<lparr> mKeyValuePairs := [new_data ''a'' ''1'' Value False] \<rparr>] \<rparr>,
      [[CHR ''N'', CHR ''o'', CHR '' '', CHR 0x22, CHR ''='', CHR 0x22] @ '' or ''
         @ [CHR 0x22, CHR '':'', CHR 0x22] @ '' sign found!'' @ [CHR 0x0A]])
   \<and> True = (case Some (''a=1'' @ [CHR 0x0A] @ ''novalue'' @ [CHR 0x0A] @ ''z=1'' @ [CHR 0x0A]) of
               None \<Rightarrow> False | Some bytes \<Rightarrow> 6 \<le> length bytes)
   \<and> ParseFile (\<lambda>u. Inl range_error) (\<lambda>u. Inl range_error) (Some ''a=1'') new_stream
       = Inr (False, new_stream, [''INI file cannot be smaller than 6 bytes!''])
   \<and> False = (case Some ''a=1'' of None \<Rightarrow> False | Some bytes \<Rightarrow> 6 \<le> length bytes)"
  (is "?p1 \<and> ?c1 \<and> ?p2 \<and> ?c2")
proof -
  have p1: ?p1 by code_simp
  have p2: ?p2 by code_simp
  have c1: ?c1 by (rule ParseFile_return_value [OF p1])
  have c2: ?c2 by (rule ParseFile_return_value [OF p2])
  show ?thesis using p1 c1 p2 c2 by blast
qed

text \<open>
  The claim as it was stated fails on a file of 8 bytes that ends inside \<open>\x41\<close>:
  \<open>ParseFile\<close> throws and returns nothing.
\<close>

theorem ParseFile_throws_counterexample:
  "6 \<le> length (''key='' @ [CHR 0x5C] @ ''x41'')
   \<and> ParseFile (\<lambda>u. Inl range_error) (\<lambda>u. Inl range_error)
         (Some (''key='' @ [CHR 0x5C] @ ''x41'')) new_stream
       = Inl (runtime_error ''Read beyond end of file, and found invalid unicode escape sequence!'')"
  by code_simp
subsection \<open>Error containment\<close>

lemma parse_empty_line_keeps:
  "parse_empty_line st = Inr st' \<Longrightarrow> errorMessage st' = errorMessage st \<and> printed st' = printed st"
  by (auto simp: parse_empty_line_def Let_def split: if_splits sum.splits prod.splits)

lemma parse_comment_line_keeps:
  "parse_comment_line st l = Inr st' \<Longrightarrow> errorMessage st' = errorMessage st \<and> printed st' = printed st"
  by (auto simp: parse_comment_line_def Let_def split: if_splits sum.splits prod.splits)

lemma section_step_Continue:
  "section_step f st c rest = Continue st' \<Longrightarrow>
     pData st' = pData st \<and> errorMessage st' = errorMessage st \<and> printed st' = printed st"
  by (auto simp: section_step_def Let_def add_error_sel split: if_splits)

lemma section_step_Break:
  "section_step f st c rest = Break st' \<Longrightarrow>
     printed st' = printed st \<and>
     (pData st' = pData st \<or> (errorMessage st' = errorMessage st \<and> \<not> newSection st'))"
  by (auto simp: section_step_def Let_def add_error_sel split: if_splits)

lemma section_loop_inv:
  "printed (section_loop f st l) = printed st \<and>
   (pData (section_loop f st l) = pData st \<or>
    (errorMessage (section_loop f st l) = errorMessage st \<and> \<not> newSection (section_loop f st l)))"
proof (induction l arbitrary: f st)
  case Nil
  then show ?case by simp
next
  case (Cons c rest)
  show ?case
  proof (cases "c = CHR 0x0A")
    case True
    then show ?thesis by simp
  next
    case False
    show ?thesis
    proof (cases "section_step f st c rest")
      case (Continue st')
      then show ?thesis
        using False section_step_Continue [OF Continue] Cons [of False st'] by auto
    next
      case (Break st')
      then show ?thesis
        using False section_step_Break [OF Break] by auto
    qed
  qed
qed

lemma parse_section_line_keeps:
  "printed (parse_section_line st l) = printed st"
  "errorMessage st = [] \<Longrightarrow> errorMessage (parse_section_line st l) \<noteq> [] \<Longrightarrow>
     pData (parse_section_line st l) = pData st"
proof -
  let ?s0 = "st\<lparr> newSection := True, newKey := False, newValue := False,
                        stringValue := False, sectionName := [] \<rparr>"
  let ?s1 = "section_loop True ?s0 l"
  have inv: "printed ?s1 = printed ?s0 \<and>
     (pData ?s1 = pData ?s0 \<or> (errorMessage ?s1 = errorMessage ?s0 \<and> \<not> newSection ?s1))"
    by (rule section_loop_inv)
  show "printed (parse_section_line st l) = printed st"
    using inv by (simp add: parse_section_line_def Let_def add_error_sel)
  assume e: "errorMessage st = []" and ne: "errorMessage (parse_section_line st l) \<noteq> []"
  show "pData (parse_section_line st l) = pData st"
  proof (cases "pData ?s1 = pData ?s0")
    case True
    then show ?thesis by (simp add: parse_section_line_def Let_def add_error_sel)
  next
    case False
    then have "errorMessage ?s1 = [] \<and> \<not> newSection ?s1" using inv e by auto
    then have "errorMessage (parse_section_line st l) = []"
      by (simp add: parse_section_line_def Let_def)
    then show ?thesis using ne by simp
  qed
qed


lemma key_step_keeps:
  "key_step e st c rest = Continue st' \<or> key_step e st c rest = Break st' \<Longrightarrow>
     pData st' = pData st \<and> printed st' = printed st"
  by (auto simp: key_step_def Let_def add_error_sel split: if_splits)

lemma key_loop_keeps:
  "pData (fst (key_loop e st l)) = pData st \<and> printed (fst (key_loop e st l)) = printed st"
proof (induction l arbitrary: st)
  case Nil
  then show ?case by simp
next
  case (Cons c rest)
  show ?case
  proof (cases "c = e")
    case True
    then show ?thesis by simp
  next
    case False
    show ?thesis
    proof (cases "key_step e st c rest")
      case (Continue st')
      then show ?thesis using False key_step_keeps [of e st c rest st'] Cons [of st'] by simp
    next
      case (Break st')
      then show ?thesis using False key_step_keeps [of e st c rest st'] by simp
    qed
  qed
qed

lemma classify_key_keeps:
  "pData (classify_key k st) = pData st" "printed (classify_key k st) = printed st"
  "errorMessage (classify_key k st) = errorMessage st"
  by (simp_all add: classify_key_def)

lemma parse_key_keeps:
  "pData (fst (parse_key st l)) = pData st \<and> printed (fst (parse_key st l)) = printed st"
proof -
  let ?st2 = "if no_delimiter l
     then add_error ([CHR ''N'', CHR ''o'', CHR '' '', CHR 0x22, CHR ''='', CHR 0x22] @ '' or '' @ [CHR 0x22, CHR '':'', CHR 0x22] @ '' sign found!'') (st\<lparr> keyName := [] \<rparr>)
     else st\<lparr> keyName := [] \<rparr>"
  let ?st3 = "classify_key (hd (Split l (endCharacter_of l))) ?st2"
  obtain st4 rest where kl: "key_loop (endCharacter_of l) ?st3 l = (st4, rest)"
    by (cases "key_loop (endCharacter_of l) ?st3 l") auto
  have s2: "pData ?st2 = pData st \<and> printed ?st2 = printed st"
    by (simp add: add_error_sel)
  have s4: "pData st4 = pData st \<and> printed st4 = printed st"
    using key_loop_keeps [of "endCharacter_of l" ?st3 l] kl s2
    by (simp only: fst_conv classify_key_keeps)
  show ?thesis
    unfolding parse_key_def Let_def
    using s2 s4 by (simp add: kl add_error_sel)
qed

lemma value_step_keeps:
  "value_step a v c rest = Continue v' \<or> value_step a v c rest = Break v' \<Longrightarrow>
     pData (snd (snd v')) = pData (snd (snd v)) \<and> printed (snd (snd v')) = printed (snd (snd v))"
  by (cases v) (auto simp: value_step_def Let_def add_error_sel split: if_splits)

lemma value_loop_keeps:
  "pData (snd (snd (value_loop a v l))) = pData (snd (snd v)) \<and>
   printed (snd (snd (value_loop a v l))) = printed (snd (snd v))"
proof (induction l arbitrary: v)
  case Nil
  then show ?case by simp
next
  case (Cons c rest)
  show ?case
  proof (cases "c = CHR 0x0A")
    case True
    then show ?thesis by simp
  next
    case False
    show ?thesis
    proof (cases "value_step a v c rest")
      case (Continue v')
      then show ?thesis using False value_step_keeps [of a v c rest v'] Cons [of v'] by simp
    next
      case (Break v')
      then show ?thesis using False value_step_keeps [of a v c rest v'] by simp
    qed
  qed
qed

lemma insert_entry_keeps:
  "insert_entry q st = Inr st' \<Longrightarrow> errorMessage st' = errorMessage st \<and> printed st' = printed st"
  by (auto simp: insert_entry_def Let_def split: sum.splits if_splits)

lemma parse_value_keeps:
  assumes "parse_value st line rest = Inr st'"
  shows "printed st' = printed st"
    and "errorMessage st' \<noteq> [] \<Longrightarrow> pData st' = pData st"
proof -
  let ?st2 = "if no_delimiter line
     then add_error ([CHR ''N'', CHR ''o'', CHR '' '', CHR 0x22, CHR ''='', CHR 0x22] @ '' or '' @ [CHR 0x22, CHR '':'', CHR 0x22] @ '' sign found!'') (st\<lparr> pvalue := [] \<rparr>)
     else st\<lparr> pvalue := [] \<rparr>"
  let ?from = "drop (value_start line (length line - length rest)) line"
  obtain cq q st3 where vl: "value_loop (allQuoteCharacters line) (0, False, ?st2) ?from = (cq, q, st3)"
    by (cases "value_loop (allQuoteCharacters line) (0, False, ?st2) ?from") auto
  let ?st4 = "if newValue st3 \<and> stringValue st3
                then add_error ''Value end tag (New line) was not found!'' st3 else st3"
  have s2: "pData ?st2 = pData st \<and> printed ?st2 = printed st" by (simp add: add_error_sel)
  have s3: "pData st3 = pData st \<and> printed st3 = printed st"
    using value_loop_keeps [of "allQuoteCharacters line" "(0, False, ?st2)" ?from] vl s2 by simp
  have s4: "pData ?st4 = pData st \<and> printed ?st4 = printed st"
    using s3 by (simp add: add_error_sel)
  have pv: "parse_value st line rest =
     (if errorMessage ?st2 \<noteq> [] then Inr ?st2
      else if errorMessage ?st4 = [] then insert_entry q ?st4 else Inr ?st4)"
    unfolding parse_value_def Let_def by (simp add: vl)
  show "printed st' = printed st"
    using assms s2 s4 insert_entry_keeps [of q ?st4 st'] unfolding pv
    by (auto split: if_splits)
  assume ne: "errorMessage st' \<noteq> []"
  show "pData st' = pData st"
    using assms s2 s4 ne insert_entry_keeps [of q ?st4 st'] unfolding pv
    by (auto split: if_splits)
qed

lemma parse_line_keeps:
  assumes "parse_line st l = Inr st'"
  shows "printed st' = printed st"
    and "errorMessage st = [] \<Longrightarrow> errorMessage st' \<noteq> [] \<Longrightarrow> pData st' = pData st"
proof -
  let ?tmp = "remove_whitespace False False l"
  let ?line = "if last ?tmp \<noteq> CHR 0x0A then ?tmp @ [CHR 0x0A] else ?tmp"
  obtain st1 rest where pk: "(if newKey st then parse_key st ?line else (st, ?line)) = (st1, rest)"
    by (cases "if newKey st then parse_key st ?line else (st, ?line)") auto
  have k: "pData st1 = pData st \<and> printed st1 = printed st"
    using pk parse_key_keeps [of st ?line] by (auto split: if_splits)
  have pl: "parse_line st l =
     (if ?tmp = [] then parse_empty_line st
      else if is_comment_char (hd ?line) then parse_comment_line st ?line
      else if hd ?line = CHR ''['' then Inr (parse_section_line st ?line)
      else if newValue st1 then parse_value st1 ?line rest else Inr st1)"
    unfolding parse_line_def Let_def by (simp add: pk)
  show "printed st' = printed st"
    using assms k parse_empty_line_keeps [of st st'] parse_comment_line_keeps [of st ?line st']
      parse_section_line_keeps(1) [of st ?line] parse_value_keeps(1) [of st1 ?line rest st']
    unfolding pl by (auto split: if_splits)
  assume e: "errorMessage st = []" and ne: "errorMessage st' \<noteq> []"
  show "pData st' = pData st"
    using assms k e ne parse_empty_line_keeps [of st st'] parse_comment_line_keeps [of st ?line st']
      parse_section_line_keeps(2) [of st ?line] parse_value_keeps(2) [of st1 ?line rest st']
    unfolding pl by (auto split: if_splits)
qed

text \<open>Lines that parse without an error message can be split off the front of the buffer.\<close>

lemma parse_lines_clean_prefix:
  "parse_lines st0 pre = Inr st1 \<Longrightarrow> errorMessage st0 = [] \<Longrightarrow> errorMessage st1 = [] \<Longrightarrow>
   printed st1 = printed st0 \<Longrightarrow> parse_lines st0 (pre @ others) = parse_lines st1 others"
proof (induction pre arbitrary: st0)
  case Nil
  then show ?case by simp
next
  case (Cons l ls)
  obtain st' where pl: "parse_line st0 l = Inr st'"
    using Cons.prems(1,2) by (cases "parse_line st0 l") auto
  have rest: "parse_lines st' ls = Inr st1" using Cons.prems(1,2) pl by simp
  have pr: "printed st' = printed st0" using parse_line_keeps(1) [OF pl] .
  have e': "errorMessage st' = []"
  proof (rule ccontr)
    assume ne: "errorMessage st' \<noteq> []"
    show False
    proof (cases ls)
      case Nil
      then show False using rest ne Cons.prems(3) by simp
    next
      case (Cons a as)
      then have "st1 = st'\<lparr> printed := printed st' @ [errorMessage st'], errorMessage := [] \<rparr>"
        using rest ne by simp
      then have "printed st1 = printed st0 @ [errorMessage st']" using pr by simp
      then show False using Cons.prems(4) by simp
    qed
  qed
  have "parse_lines st' (ls @ others) = parse_lines st1 others"
    using Cons.IH [OF rest e' Cons.prems(3)] Cons.prems(4) pr by simp
  then show ?case using Cons.prems(2) pl by simp
qed

text \<open>
  Claim C2. Let the lines before the failing one parse without any error message, and let the
  next line leave an error message (a missing delimiter, an unterminated section or quote, a
  comment inside a section tag, a bracket inside a key or a value). Then \<open>ParseFile\<close> returns
  true, prints that one message, and the document is the one built from the earlier lines,
  with at most the current section appended empty when it was not registered yet. The lines
  after the failing one play no part in the result.
\<close>

theorem error_containment:
  assumes "6 \<le> length bytes"
    and "read_contents to_bytes16 to_bytes32 bytes = Inr fileContents"
    and "segment_lines fileContents = Inr (pre @ bad # rest)"
    and "parse_lines (init_pstate (mData stream)) pre = Inr st1"
    and "errorMessage st1 = []" and "printed st1 = []"
    and "parse_line st1 bad = Inr st2" and "errorMessage st2 \<noteq> []"
  shows "\<exists>secs. ParseFile to_bytes16 to_bytes32 (Some bytes) stream
                  = Inr (True, stream\<lparr> mData := secs \<rparr>, [errorMessage st2])
           \<and> (secs = pData st1 \<or> secs = pData st1 @ [new_section (sectionName st2)])"
proof -
  let ?init = "init_pstate (mData stream)"
  have i: "errorMessage ?init = []" "printed ?init = []" by (simp_all add: init_pstate_def)
  have "parse_lines ?init (pre @ bad # rest) = parse_lines st1 (bad # rest)"
    by (rule parse_lines_clean_prefix [OF assms(4)]) (simp_all add: i assms(5,6))
  also have "\<dots> = parse_lines st2 rest" using assms(5,7) by simp
  finally have pl: "parse_lines ?init (pre @ bad # rest) = parse_lines st2 rest" .
  have d2: "pData st2 = pData st1"
    by (rule parse_line_keeps(2) [OF assms(7) assms(5) assms(8)])
  have p2: "printed st2 = []" using parse_line_keeps(1) [OF assms(7)] assms(6) by simp
  let ?st3 = "st2\<lparr> printed := printed st2 @ [errorMessage st2], errorMessage := [] \<rparr>"
  have r: "parse_lines st2 rest = Inr (if rest = [] then st2 else ?st3)"
    using assms(8) by (cases rest) simp_all
  have f: "finish_parse (if rest = [] then st2 else ?st3) =
     (if \<not> has_section (ToLower (sectionName st2)) (pData st2)
      then ?st3\<lparr> pData := pData st2 @ [new_section (sectionName st2)] \<rparr> else ?st3)"
    using assms(8) by (simp add: finish_parse_def Let_def)
  have "ParseFile to_bytes16 to_bytes32 (Some bytes) stream =
        Inr (True, stream\<lparr> mData := pData (finish_parse (if rest = [] then st2 else ?st3)) \<rparr>,
             printed (finish_parse (if rest = [] then st2 else ?st3)))"
  proof -
    have ne: "bytes \<noteq> []" and ge: "\<not> length bytes < 6" using assms(1) by auto
    show ?thesis by (simp add: ParseFile_def assms(2,3) pl r ne ge)
  qed
  then show ?thesis
    unfolding f using d2 p2 by (cases "has_section (ToLower (sectionName st2)) (pData st2)") auto
qed

theorem error_containment_witness:
  "6 \<le> length (''a=1'' @ [CHR 0x0A] @ ''[s]'' @ [CHR 0x0A] @ [CHR ''k'', CHR ''='', CHR 0x22] @ ''abc'' @ [CHR 0x0A] @ ''z=1'' @ [CHR 0x0A])
   \<and> read_contents (\<lambda>u. Inl range_error) (\<lambda>u. Inl range_error) (''a=1'' @ [CHR 0x0A] @ ''[s]'' @ [CHR 0x0A] @ [CHR ''k'', CHR ''='', CHR 0x22] @ ''abc'' @ [CHR 0x0A] @ ''z=1'' @ [CHR 0x0A]) = Inr (''a=1'' @ [CHR 0x0A] @ ''[s]'' @ [CHR 0x0A] @ [CHR ''k'', CHR ''='', CHR 0x22] @ ''abc'' @ [CHR 0x0A] @ ''z=1'' @ [CHR 0x0A])
   \<and> segment_lines (''a=1'' @ [CHR 0x0A] @ ''[s]'' @ [CHR 0x0A] @ [CHR ''k'', CHR ''='', CHR 0x22] @ ''abc'' @ [CHR 0x0A] @ ''z=1'' @ [CHR 0x0A]) = Inr ([''a=1'' @ [CHR 0x0A], ''[s]'' @ [CHR 0x0A]] @ ([CHR ''k'', CHR ''='', CHR 0x22] @ ''abc'' @ [CHR 0x0A]) # [''z=1'' @ [CHR 0x0A]])
   \<and> parse_lines (init_pstate (mData new_stream)) [''a=1'' @ [CHR 0x0A], ''[s]'' @ [CHR 0x0A]] = Inr (projr (parse_lines (init_pstate (mData new_stream)) [''a=1'' @ [CHR 0x0A], ''[s]'' @ [CHR 0x0A]]))
   \<and> errorMessage (projr (parse_lines (init_pstate (mData new_stream)) [''a=1'' @ [CHR 0x0A], ''[s]'' @ [CHR 0x0A]])) = [] \<and> printed (projr (parse_lines (init_pstate (mData new_stream)) [''a=1'' @ [CHR 0x0A], ''[s]'' @ [CHR 0x0A]])) = []
   \<and> parse_line (projr (parse_lines (init_pstate (mData new_stream)) [''a=1'' @ [CHR 0x0A], ''[s]'' @ [CHR 0x0A]])) ([CHR ''k'', CHR ''='', CHR 0x22] @ ''abc'' @ [CHR 0x0A]) = Inr (projr (parse_line (projr (parse_lines (init_pstate (mData new_stream)) [''a=1'' @ [CHR 0x0A], ''[s]'' @ [CHR 0x0A]])) ([CHR ''k'', CHR ''='', CHR 0x22] @ ''abc'' @ [CHR 0x0A])))
   \<and> errorMessage (projr (parse_line (projr (parse_lines (init_pstate (mData new_stream)) [''a=1'' @ [CHR 0x0A], ''[s]'' @ [CHR 0x0A]])) ([CHR ''k'', CHR ''='', CHR 0x22] @ ''abc'' @ [CHR 0x0A]))) = ''String end tag not defined!'' @ [CHR 0x0A]
         @ ''Value end tag (New line) was not found!'' @ [CHR 0x0A]
   \<and> pData (projr (parse_lines (init_pstate (mData new_stream)) [''a=1'' @ [CHR 0x0A], ''[s]'' @ [CHR 0x0A]])) = [(new_section ''hi_global'') \<lparr> mKeyValuePairs := [new_data ''a'' ''1'' Value False] \<rparr>]
   \<and> sectionName (projr (parse_line (projr (parse_lines (init_pstate (mData new_stream)) [''a=1'' @ [CHR 0x0A], ''[s]'' @ [CHR 0x0A]])) ([CHR ''k'', CHR ''='', CHR 0x22] @ ''abc'' @ [CHR 0x0A]))) = ''s''
   \<and> (\<exists>secs. ParseFile (\<lambda>u. Inl range_error) (\<lambda>u. Inl range_error) (Some (''a=1'' @ [CHR 0x0A] @ ''[s]'' @ [CHR 0x0A] @ [CHR ''k'', CHR ''='', CHR 0x22] @ ''abc'' @ [CHR 0x0A] @ ''z=1'' @ [CHR 0x0A])) new_stream
                  = Inr (True, new_stream\<lparr> mData := secs \<rparr>, [errorMessage (projr (parse_line (projr (parse_lines (init_pstate (mData new_stream)) [''a=1'' @ [CHR 0x0A], ''[s]'' @ [CHR 0x0A]])) ([CHR ''k'', CHR ''='', CHR 0x22] @ ''abc'' @ [CHR 0x0A])))])
           \<and> (secs = pData (projr (parse_lines (init_pstate (mData new_stream)) [''a=1'' @ [CHR 0x0A], ''[s]'' @ [CHR 0x0A]])) \<or> secs = pData (projr (parse_lines (init_pstate (mData new_stream)) [''a=1'' @ [CHR 0x0A], ''[s]'' @ [CHR 0x0A]])) @ [new_section (sectionName (projr (parse_line (projr (parse_lines (init_pstate (mData new_stream)) [''a=1'' @ [CHR 0x0A], ''[s]'' @ [CHR 0x0A]])) ([CHR ''k'', CHR ''='', CHR 0x22] @ ''abc'' @ [CHR 0x0A]))))]))"
  (is "?h1 \<and> ?h2 \<and> ?h3 \<and> ?h4 \<and> ?h5 \<and> ?h6 \<and> ?h7 \<and> ?m \<and> ?d \<and> ?n \<and> ?c")
proof -
  have h1: ?h1 by simp
  have h2: ?h2 by code_simp
  have h3: ?h3 by code_simp
  have h4: ?h4 by code_simp
  have h5: ?h5 by code_simp
  have h6: ?h6 by code_simp
  have h7: ?h7 by code_simp
  have m: ?m by code_simp
  have d: ?d by code_simp
  have n: ?n by code_simp
  have h8: "errorMessage (projr (parse_line (projr (parse_lines (init_pstate (mData new_stream)) [''a=1'' @ [CHR 0x0A], ''[s]'' @ [CHR 0x0A]])) ([CHR ''k'', CHR ''='', CHR 0x22] @ ''abc'' @ [CHR 0x0A]))) \<noteq> []" unfolding m by simp
  have c: ?c by (rule error_containment [OF h1 h2 h3 h4 h5 h6 h7 h8])
  show ?thesis using h1 h2 h3 h4 h5 h6 h7 m d n c by blast
qed
subsection \<open>The delimiter of a key/value line\<close>

lemma takeWhile_neq_less: "c \<in> set s \<Longrightarrow> length (takeWhile (\<lambda>x. x \<noteq> c) s) < length s"
  by (induction s) auto

lemma takeWhile_neq_nth: "c \<in> set s \<Longrightarrow> s ! length (takeWhile (\<lambda>x. x \<noteq> c) s) = c"
  by (induction s) auto

lemma find_char_Some:
  assumes "find_char c s = Some n"
  shows "n < length s" "s ! n = c" "c \<notin> set (take n s)" "s = take n s @ c # drop (Suc n) s"
    "take n s = takeWhile (\<lambda>x. x \<noteq> c) s"
proof -
  have m: "c \<in> set s" and n: "n = length (takeWhile (\<lambda>x. x \<noteq> c) s)"
    using assms by (auto simp: find_char_def split: if_splits)
  show lt: "n < length s" unfolding n by (rule takeWhile_neq_less [OF m])
  show tk: "take n s = takeWhile (\<lambda>x. x \<noteq> c) s"
    unfolding n by (rule takeWhile_eq_take [symmetric])
  show nth: "s ! n = c" unfolding n by (rule takeWhile_neq_nth [OF m])
  show "c \<notin> set (take n s)"
  proof
    assume "c \<in> set (take n s)"
    then have "c \<in> set (takeWhile (\<lambda>x. x \<noteq> c) s)" by (simp only: tk)
    then show False using set_takeWhileD by fastforce
  qed
  show "s = take n s @ c # drop (Suc n) s"
    using id_take_nth_drop [OF lt] nth by simp
qed

lemma delimiters_differ:
  assumes "find_char CHR ''='' line = Some p" "find_char CHR '':'' line = Some q"
  shows "p \<noteq> q"
proof
  assume "p = q"
  then have "line ! p = CHR '':''" using find_char_Some(2) [OF assms(2)] by simp
  then show False using find_char_Some(2) [OF assms(1)] by simp
qed

lemma endCharacter_of_min:
  assumes "find_char CHR ''='' line = Some p" "find_char CHR '':'' line = Some q"
  shows "endCharacter_of line = line ! min p q" "value_start line ci = min p q + 1"
    "find_char (endCharacter_of line) line = Some (min p q)"
proof -
  have ne: "p \<noteq> q" by (rule delimiters_differ [OF assms])
  show "endCharacter_of line = line ! min p q"
    using ne find_char_Some(2) [OF assms(1)] find_char_Some(2) [OF assms(2)]
    by (simp add: endCharacter_of_def assms min_def)
  show "value_start line ci = min p q + 1"
    using ne by (simp add: value_start_def assms min_def)
  show "find_char (endCharacter_of line) line = Some (min p q)"
    using ne by (auto simp: endCharacter_of_def assms min_def)
qed

text \<open>
  The key loop on a line whose first \<open>endCharacter\<close> follows \<open>pre\<close>: when the key is no array
  key and no error is left, the key is \<open>pre\<close> without its blanks.
\<close>

lemma key_step_isArrayKey:
  "key_step e st c rest = Continue st' \<or> key_step e st c rest = Break st' \<Longrightarrow>
     isArrayKey st' = isArrayKey st"
  by (auto simp: key_step_def Let_def add_error_sel split: if_splits)

lemma key_step_plain_Break:
  "key_step e st c rest = Break st' \<Longrightarrow> \<not> isArrayKey st \<Longrightarrow> errorMessage st' \<noteq> []"
  by (auto simp: key_step_def Let_def add_error_sel split: if_splits)

lemma key_step_plain_Continue:
  "key_step e st c rest = Continue st' \<Longrightarrow>
     keyName st' = keyName st @ (if c = CHR '' '' then [] else [c]) \<and>
     errorMessage st' = errorMessage st"
  by (auto simp: key_step_def Let_def add_error_sel split: if_splits)

lemma key_loop_plain:
  "e \<notin> set pre \<Longrightarrow> \<not> isArrayKey st \<Longrightarrow> errorMessage (fst (key_loop e st (pre @ e # post))) = [] \<Longrightarrow>
   keyName (fst (key_loop e st (pre @ e # post))) = keyName st @ filter (\<lambda>c. c \<noteq> CHR '' '') pre
   \<and> snd (key_loop e st (pre @ e # post)) = e # post
   \<and> isArrayKey (fst (key_loop e st (pre @ e # post))) = isArrayKey st"
proof (induction pre arbitrary: st)
  case Nil
  then show ?case by simp
next
  case (Cons c cs)
  have ce: "c \<noteq> e" and ecs: "e \<notin> set cs" using Cons.prems(1) by auto
  show ?case
  proof (cases "key_step e st c (cs @ e # post)")
    case (Break st')
    then have "errorMessage st' \<noteq> []" using key_step_plain_Break Cons.prems(2) by blast
    then show ?thesis using Break ce Cons.prems(3) by simp
  next
    case (Continue st')
    have a: "\<not> isArrayKey st'" using key_step_isArrayKey [of e st c "cs @ e # post" st'] Continue Cons.prems(2) by simp
    have kl: "key_loop e st ((c # cs) @ e # post) = key_loop e st' (cs @ e # post)"
      using ce Continue by simp
    have em: "errorMessage (fst (key_loop e st' (cs @ e # post))) = []"
      using Cons.prems(3) kl by simp
    show ?thesis
      using Cons.IH [OF ecs a em] key_step_plain_Continue [OF Continue] a Cons.prems(2)
      unfolding kl by auto
  qed
qed

lemma key_loop_isArrayKey:
  "isArrayKey (fst (key_loop e st l)) = isArrayKey st"
proof (induction l arbitrary: st)
  case Nil
  then show ?case by simp
next
  case (Cons c rest)
  show ?case
  proof (cases "c = e")
    case True
    then show ?thesis by simp
  next
    case False
    show ?thesis
    proof (cases "key_step e st c rest")
      case (Continue st')
      then show ?thesis using False key_step_isArrayKey [of e st c rest st'] Cons [of st'] by simp
    next
      case (Break st')
      then show ?thesis using False key_step_isArrayKey [of e st c rest st'] by simp
    qed
  qed
qed


lemma classify_key_sel:
  "keyName (classify_key k st) = keyName st" "errorMessage (classify_key k st) = errorMessage st"
  by (simp_all add: classify_key_def)


subsubsection \<open>Lines without quotes and comments\<close>

lemma remove_whitespace_filter:
  "set s \<inter> {CHR 0x22, CHR 0x27, CHR '';'', CHR ''#''} = {} \<Longrightarrow>
     remove_whitespace False False s = filter (\<lambda>c. \<not> isspace c) s"
  by (induction s) (auto simp: Let_def is_comment_char_def is_quote_char_def)

lemma isspace_LF: "isspace (CHR 0x0A)" "isspace (CHR '' '')"
  by (simp_all add: isspace_def)

lemma takeWhile_until: "e \<notin> set K \<Longrightarrow> takeWhile (\<lambda>x. x \<noteq> e) (K @ e # post) = K"
  by (induction K) auto

lemma dropWhile_until: "e \<notin> set K \<Longrightarrow> dropWhile (\<lambda>x. x \<noteq> e) (K @ e # post) = e # post"
  by (induction K) auto

lemma Split_loop_head:
  assumes "K \<noteq> []" "e \<notin> set K"
  shows "Split_loop e (K @ e # post) = K # Split_loop e (e # post)"
proof -
  obtain k ks where K: "K = k # ks" using assms(1) by (cases K) auto
  have ke: "k \<noteq> e" using assms(2) K by auto
  have d: "dropWhile (\<lambda>c. c = e) (K @ e # post) = k # (ks @ e # post)" using K ke by simp
  have t: "takeWhile (\<lambda>x. x \<noteq> e) (k # (ks @ e # post)) = K"
    using takeWhile_until [OF assms(2), of post] K by simp
  have dr: "dropWhile (\<lambda>x. x \<noteq> e) (k # (ks @ e # post)) = e # post"
    using dropWhile_until [OF assms(2), of post] K by simp
  show ?thesis
    by (subst Split_loop.simps) (simp only: d list.case t dr)
qed

lemma Split_head:
  assumes "K \<noteq> []" "e \<notin> set K"
  shows "hd (Split (K @ e # post) e) = K"
  by (simp add: Split_def Let_def Split_loop_head [OF assms])

lemma Split_loop_skip: "Split_loop d (d # s) = Split_loop d s"
  by (subst Split_loop.simps, subst (2) Split_loop.simps) simp

lemma Split_loop_last:
  assumes "s \<noteq> []" "d \<notin> set s"
  shows "Split_loop d s = [s]"
proof -
  obtain k ks where s: "s = k # ks" using assms(1) by (cases s) auto
  have kd: "k \<noteq> d" using assms(2) s by auto
  have d0: "dropWhile (\<lambda>c. c = d) s = k # ks" using s kd by simp
  have t: "takeWhile (\<lambda>x. x \<noteq> d) (k # ks) = s" using assms(2) s by auto
  have dr: "dropWhile (\<lambda>x. x \<noteq> d) (k # ks) = []" using assms(2) s by auto
  have e: "Split_loop d [] = []" by (subst Split_loop.simps) simp
  show ?thesis
    by (subst Split_loop.simps) (simp only: d0 list.case t dr e)
qed

lemma EndsWith_append: "EndsWith K suf \<Longrightarrow> \<exists>xs. K = xs @ suf"
proof -
  assume "EndsWith K suf"
  then have "drop (length K - length suf) K = suf" by (simp add: EndsWith_def)
  then have "K = take (length K - length suf) K @ suf"
    using append_take_drop_id [of "length K - length suf" K] by simp
  then show ?thesis by blast
qed

lemma classify_key_plain:
  assumes "set K \<inter> {CHR ''['', CHR '']''} = {}"
  shows "classify_key K st = st\<lparr> isArrayKey := False, hasArrayIndex := False \<rparr>"
proof -
  have a: "\<not> EndsWith K '']''"
  proof
    assume "EndsWith K '']''"
    then obtain xs where "K = xs @ '']''" using EndsWith_append by blast
    then show False using assms by auto
  qed
  have b: "\<not> EndsWith K ''[]''"
  proof
    assume "EndsWith K ''[]''"
    then obtain xs where "K = xs @ ''[]''" using EndsWith_append by blast
    then show False using assms by auto
  qed
  show ?thesis by (simp add: classify_key_def a b)
qed

lemma classify_key_array:
  "classify_key (name @ ''[]'') st = st\<lparr> isArrayKey := True, hasArrayIndex := False \<rparr>"
  by (simp add: classify_key_def EndsWith_def)

lemma classify_key_indexed:
  assumes "name \<noteq> []" "CHR ''['' \<notin> set name" "idx \<noteq> []" "CHR ''['' \<notin> set idx"
  shows "classify_key (name @ ''['' @ idx @ '']'') st
           = st\<lparr> arrayIndex := idx, isArrayKey := True, hasArrayIndex := True \<rparr>"
proof -
  let ?K = "name @ ''['' @ idx @ '']''"
  have li: "last idx \<noteq> CHR ''[''" using assms(3,4) last_in_set by metis
  have a: "\<not> EndsWith ?K ''[]''"
  proof
    assume "EndsWith ?K ''[]''"
    then obtain xs where "?K = xs @ ''[]''" using EndsWith_append by blast
    then have "(name @ ''['' @ idx) @ '']'' = (xs @ ''['') @ '']''" by simp
    then have "name @ ''['' @ idx = xs @ ''[''" by (simp only: append_same_eq)
    then have "last (name @ ''['' @ idx) = CHR ''[''" by simp
    then show False using li assms(3) by simp
  qed
  have b: "EndsWith ?K '']''" by (simp add: EndsWith_def)
  have c: "\<not> StartsWith ?K ''[''"
    using assms(1,2) by (cases name) (auto simp: StartsWith_def)
  have d: "CHR ''['' \<in> set ?K" by simp
  have i: "idx @ '']'' \<noteq> []" "CHR ''['' \<notin> set (idx @ '']'')" using assms(4) by simp_all
  have "Split_loop CHR ''['' ?K = name # Split_loop CHR ''['' (CHR ''['' # idx @ '']'')"
    using Split_loop_head [OF assms(1,2), of "idx @ '']''"] by simp
  also have "\<dots> = [name, idx @ '']'']"
    by (simp only: Split_loop_skip Split_loop_last [OF i])
  finally have s: "Split ?K CHR ''['' = [name, idx @ '']'']" by (simp add: Split_def)
  show ?thesis
    unfolding classify_key_def by (simp only: a b c d s if_False if_True simp_thms list.case butlast_snoc)
qed

subsubsection \<open>The key loop and the value loop on plain text\<close>

lemma key_loop_plain_text:
  assumes "set K \<inter> {CHR '' '', CHR ''['', CHR '']'', CHR '';'', CHR ''#''} = {}" "e \<notin> set K"
    and "\<not> isArrayKey st"
  shows "key_loop e st (K @ e # post)
           = (if K = [] then st else st\<lparr> keyName := keyName st @ K, newKey := False \<rparr>, e # post)"
  using assms
proof (induction K arbitrary: st)
  case Nil
  then show ?case by simp
next
  case (Cons c cs)
  have ce: "c \<noteq> e" using Cons.prems(2) by auto
  have cp: "c \<noteq> CHR '' ''" "c \<noteq> CHR ''[''" "c \<noteq> CHR '']''" "\<not> is_comment_char c"
    using Cons.prems(1) by (auto simp: is_comment_char_def)
  have n: "next_is e (cs @ e # post) \<longleftrightarrow> cs = []"
    using Cons.prems(2) by (cases cs) (auto simp: next_is_def)
  let ?st1 = "st\<lparr> keyName := keyName st @ [c] \<rparr>"
  have ks: "key_step e st c (cs @ e # post)
              = Continue (if cs = [] then ?st1\<lparr> newKey := False \<rparr> else ?st1)"
    using cp by (simp add: key_step_def Let_def n)
  show ?case
  proof (cases "cs = []")
    case True
    then show ?thesis using ce ks by simp
  next
    case False
    have i: "set cs \<inter> {CHR '' '', CHR ''['', CHR '']'', CHR '';'', CHR ''#''} = {}" "e \<notin> set cs"
      "\<not> isArrayKey ?st1"
      using Cons.prems by auto
    show ?thesis using ce ks False Cons.IH [OF i] by simp
  qed
qed

lemma key_loop_array_text:
  assumes "set name \<inter> {CHR '' '', CHR ''['', CHR '';'', CHR ''#''} = {}" "e \<notin> set name"
    and "e \<noteq> CHR ''[''" "isArrayKey st"
  shows "key_loop e st (name @ CHR ''['' # r)
           = (st\<lparr> keyName := keyName st @ name, newKey := False \<rparr>, CHR ''['' # r)"
  using assms
proof (induction name arbitrary: st)
  case Nil
  then show ?case by (simp add: key_step_def)
next
  case (Cons c cs)
  have ce: "c \<noteq> e" using Cons.prems(2) by auto
  have cp: "c \<noteq> CHR '' ''" "c \<noteq> CHR ''[''" "\<not> is_comment_char c"
    using Cons.prems(1) by (auto simp: is_comment_char_def)
  have n: "\<not> next_is e (cs @ CHR ''['' # r)"
    using Cons.prems(2,3) by (cases cs) (auto simp: next_is_def)
  let ?st1 = "st\<lparr> keyName := keyName st @ [c] \<rparr>"
  have ks: "key_step e st c (cs @ CHR ''['' # r) = Continue ?st1"
    using cp Cons.prems(4) by (simp add: key_step_def Let_def n)
  have i: "set cs \<inter> {CHR '' '', CHR ''['', CHR '';'', CHR ''#''} = {}" "e \<notin> set cs"
      "e \<noteq> CHR ''[''" "isArrayKey ?st1"
    using Cons.prems by auto
  show ?case using ce ks Cons.IH [OF i] by simp
qed

lemma value_loop_plain_text:
  assumes "set v \<inter> {CHR '' '', CHR ''['', CHR '']'', CHR 0x22, CHR 0x27, CHR '';'', CHR ''#'', CHR 0x0A} = {}"
    and "\<not> stringValue st"
  shows "value_loop aq (cq, a, st) (v @ [CHR 0x0A])
           = (cq, a, if v = [] then st else st\<lparr> pvalue := pvalue st @ v, newValue := False \<rparr>)"
  using assms
proof (induction v arbitrary: st)
  case Nil
  then show ?case by simp
next
  case (Cons c cs)
  have cp: "c \<noteq> CHR '' ''" "c \<noteq> CHR ''[''" "c \<noteq> CHR '']''" "\<not> is_quote_char c"
    "\<not> is_comment_char c" "c \<noteq> CHR 0x0A"
    using Cons.prems(1) by (auto simp: is_comment_char_def is_quote_char_def)
  have n: "next_is (CHR 0x0A) (cs @ [CHR 0x0A]) \<longleftrightarrow> cs = []"
    using Cons.prems(1) by (cases cs) (auto simp: next_is_def)
  let ?st1 = "st\<lparr> pvalue := pvalue st @ [c] \<rparr>"
  have vs: "value_step aq (cq, a, st) c (cs @ [CHR 0x0A])
              = Continue (cq, a, if cs = [] then ?st1\<lparr> newValue := False \<rparr> else ?st1)"
    using cp Cons.prems(2) by (simp add: value_step_def Let_def n)
  show ?case
  proof (cases "cs = []")
    case True
    then show ?thesis using cp vs by simp
  next
    case False
    have i: "set cs \<inter> {CHR '' '', CHR ''['', CHR '']'', CHR 0x22, CHR 0x27, CHR '';'', CHR ''#'', CHR 0x0A} = {}"
      "\<not> stringValue ?st1"
      using Cons.prems by auto
    show ?thesis using cp vs False Cons.IH [OF i] by simp
  qed
qed

subsubsection \<open>The first delimiter of a line\<close>

lemma find_char_first: "e \<notin> set K \<Longrightarrow> find_char e (K @ e # r) = Some (length K)"
  by (simp add: find_char_def takeWhile_until)

lemma takeWhile_other:
  "c \<notin> set K \<Longrightarrow> c \<noteq> e \<Longrightarrow>
     length (takeWhile (\<lambda>x. x \<noteq> c) (K @ e # r)) = length K + 1 + length (takeWhile (\<lambda>x. x \<noteq> c) r)"
  by (induction K) auto

lemma find_char_other:
  "c \<notin> set K \<Longrightarrow> c \<noteq> e \<Longrightarrow>
     find_char c (K @ e # r) = None \<or> (\<exists>n. find_char c (K @ e # r) = Some n \<and> length K < n)"
  by (simp add: find_char_def takeWhile_other)

lemma delimiter_first:
  assumes "e = CHR ''='' \<or> e = CHR '':''" "CHR ''='' \<notin> set K" "CHR '':'' \<notin> set K"
  shows "endCharacter_of (K @ e # r) = e" "value_start (K @ e # r) ci = length K + 1"
    "\<not> no_delimiter (K @ e # r)"
proof -
  consider (eq) "e = CHR ''=''" | (colon) "e = CHR '':''" using assms(1) by blast
  then have "endCharacter_of (K @ e # r) = e \<and> value_start (K @ e # r) ci = length K + 1
      \<and> \<not> no_delimiter (K @ e # r)"
  proof cases
    case eq
    have f: "find_char CHR ''='' (K @ e # r) = Some (length K)"
      using find_char_first [of e K r] assms(2) eq by simp
    have "CHR '':'' \<noteq> e" using eq by simp
    then have "find_char CHR '':'' (K @ e # r) = None
        \<or> (\<exists>n. find_char CHR '':'' (K @ e # r) = Some n \<and> length K < n)"
      using find_char_other [OF assms(3)] by blast
    then show ?thesis
      using eq f by (auto simp: endCharacter_of_def value_start_def no_delimiter_def)
  next
    case colon
    have f: "find_char CHR '':'' (K @ e # r) = Some (length K)"
      using find_char_first [of e K r] assms(3) colon by simp
    have "CHR ''='' \<noteq> e" using colon by simp
    then have "find_char CHR ''='' (K @ e # r) = None
        \<or> (\<exists>n. find_char CHR ''='' (K @ e # r) = Some n \<and> length K < n)"
      using find_char_other [OF assms(2)] by blast
    then show ?thesis
      using colon f by (auto simp: endCharacter_of_def value_start_def no_delimiter_def)
  qed
  then show "endCharacter_of (K @ e # r) = e" "value_start (K @ e # r) ci = length K + 1"
    "\<not> no_delimiter (K @ e # r)" by blast+
qed

subsubsection \<open>Key, value and line, on plain text\<close>

lemma parse_key_text:
  assumes "e = CHR ''='' \<or> e = CHR '':''" "CHR ''='' \<notin> set K" "CHR '':'' \<notin> set K" "K \<noteq> []"
    and "errorMessage st = []"
    and "classify_key K (st\<lparr> keyName := [] \<rparr>) = st3"
    and "key_loop e st3 (K @ e # r) = (st3\<lparr> keyName := name, newKey := False \<rparr>, rest)"
  shows "parse_key st (K @ e # r)
           = (st3\<lparr> keyName := ToLower name, newKey := False, newValue := True \<rparr>, rest)"
proof -
  have eK: "e \<notin> set K" using assms(1-3) by auto
  have e3: "errorMessage st3 = []"
    using assms(5,6) classify_key_sel(2) [of K "st\<lparr> keyName := [] \<rparr>"] by simp
  show ?thesis
    unfolding parse_key_def Let_def
    by (simp add: delimiter_first [OF assms(1-3)] Split_head [OF assms(4) eK] assms(5,6,7) e3)
qed

lemma parse_value_text:
  assumes "e = CHR ''='' \<or> e = CHR '':''" "CHR ''='' \<notin> set K" "CHR '':'' \<notin> set K"
    and "errorMessage st = []" "\<not> stringValue st" "v \<noteq> []"
    and "set v \<inter> {CHR '' '', CHR ''['', CHR '']'', CHR 0x22, CHR 0x27, CHR '';'', CHR ''#'', CHR 0x0A} = {}"
  shows "parse_value st (K @ e # v @ [CHR 0x0A]) rest
           = insert_entry False (st\<lparr> pvalue := v, newValue := False \<rparr>)"
proof -
  have s: "\<not> stringValue (st\<lparr> pvalue := [] \<rparr>)" using assms(5) by simp
  have vl: "value_loop aq (0, False, st\<lparr> pvalue := [] \<rparr>) (v @ [CHR 0x0A])
      = (0, False, st\<lparr> pvalue := v, newValue := False \<rparr>)" for aq
    using value_loop_plain_text [OF assms(7) s, of aq 0 False] assms(6) by simp
  show ?thesis
    unfolding parse_value_def Let_def
    by (simp add: delimiter_first [OF assms(1-3)] assms(4) vl)
qed

lemma store_entry_flags:
  "store_entry a n (st\<lparr> newKey := x, newValue := y \<rparr>) = store_entry a n st"
  by (rule ext) (simp add: store_entry_def Let_def)

lemma insert_entry_flags:
  "insert_entry a (st\<lparr> newKey := x, newValue := y \<rparr>) = insert_entry a st"
  unfolding insert_entry_def Let_def store_entry_flags
  by (simp split: sum.splits)

lemma parse_line_text:
  assumes st: "newKey st" "errorMessage st = []" "\<not> stringValue st"
    and l: "filter (\<lambda>c. \<not> isspace c) line0 = K @ e # v"
      "set line0 \<inter> {CHR 0x22, CHR 0x27, CHR '';'', CHR ''#''} = {}"
    and d: "e = CHR ''='' \<or> e = CHR '':''" "CHR ''='' \<notin> set K" "CHR '':'' \<notin> set K"
    and v: "v \<noteq> []" "set v \<inter> {CHR ''['', CHR '']''} = {}"
    and k: "K \<noteq> []" "hd K \<noteq> CHR ''[''"
      "classify_key K (st\<lparr> keyName := [] \<rparr>) = st3"
      "key_loop e st3 (K @ e # v @ [CHR 0x0A]) = (st3\<lparr> keyName := name, newKey := False \<rparr>, rest)"
  shows "parse_line st line0 = insert_entry False (st3\<lparr> keyName := ToLower name, pvalue := v \<rparr>)"
proof -
  let ?F = "K @ e # v"
  let ?line = "K @ e # v @ [CHR 0x0A]"
  have rw: "remove_whitespace False False line0 = ?F"
    using remove_whitespace_filter [OF l(2)] l(1) by simp
  have sub: "set ?F \<subseteq> set line0" using l(1) [symmetric] by (simp only: set_filter) blast
  have ns: "\<forall>c\<in>set ?F. \<not> isspace c" using l(1) [symmetric] by (simp only: set_filter) blast
  have lastF: "last ?F \<noteq> CHR 0x0A"
  proof
    assume "last ?F = CHR 0x0A"
    then have "CHR 0x0A \<in> set ?F" using last_in_set [of ?F] by simp
    then show False using ns isspace_LF(1) by blast
  qed
  have hdF: "hd ?F = hd K" "hd ?line = hd K" using k(1) by simp_all
  have hK: "hd K \<in> set ?F" using k(1) by (cases K) auto
  have nc: "\<not> is_comment_char (hd K)"
    using hK sub l(2) by (auto simp: is_comment_char_def)
  have vp: "set v \<inter> {CHR '' '', CHR ''['', CHR '']'', CHR 0x22, CHR 0x27, CHR '';'', CHR ''#'', CHR 0x0A} = {}"
    using v(2) sub l(2) ns isspace_LF by auto
  have pk: "parse_key st ?line
      = (st3\<lparr> keyName := ToLower name, newKey := False, newValue := True \<rparr>, rest)"
    by (rule parse_key_text [OF d k(1) st(2) k(3) k(4)])
  let ?st1 = "st3\<lparr> keyName := ToLower name, newKey := False, newValue := True \<rparr>"
  have s3: "stringValue st3 = stringValue st" "errorMessage st3 = errorMessage st"
    using k(3) [symmetric] by (simp_all add: classify_key_def)
  have e1: "errorMessage ?st1 = []" "\<not> stringValue ?st1" using s3 st by simp_all
  have pv: "parse_value ?st1 ?line rest = insert_entry False (?st1\<lparr> pvalue := v, newValue := False \<rparr>)"
    by (rule parse_value_text [OF d e1 v(1) vp])
  have fin: "insert_entry False (?st1\<lparr> pvalue := v, newValue := False \<rparr>)
      = insert_entry False (st3\<lparr> keyName := ToLower name, pvalue := v \<rparr>)"
  proof -
    have "?st1\<lparr> pvalue := v, newValue := False \<rparr>
        = (st3\<lparr> keyName := ToLower name, pvalue := v \<rparr>)\<lparr> newKey := False, newValue := False \<rparr>"
      by (cases st3) simp
    then show ?thesis by (simp only: insert_entry_flags)
  qed
  have "parse_line st line0 = parse_value ?st1 ?line rest"
    unfolding parse_line_def Let_def rw
    using lastF hdF nc k(2) st(1) pk by simp
  then show ?thesis by (simp only: pv fin)
qed

lemma stripped_text:
  assumes "filter (\<lambda>c. \<not> isspace c) line0 = F"
    "set line0 \<inter> {CHR 0x22, CHR 0x27, CHR '';'', CHR ''#''} = {}"
  shows "set F \<inter> {CHR '' '', CHR 0x0A, CHR 0x22, CHR 0x27, CHR '';'', CHR ''#''} = {}"
proof -
  have "set F \<subseteq> set line0" "\<forall>c\<in>set F. \<not> isspace c"
    using assms(1) [symmetric] by (simp_all only: set_filter) blast+
  then show ?thesis using assms(2) isspace_LF by auto
qed

lemma parse_line_pair:
  assumes st: "newKey st" "errorMessage st = []" "\<not> stringValue st"
    and l: "filter (\<lambda>c. \<not> isspace c) line0 = K @ e # v"
      "set line0 \<inter> {CHR 0x22, CHR 0x27, CHR '';'', CHR ''#''} = {}"
    and d: "e = CHR ''='' \<or> e = CHR '':''" "CHR ''='' \<notin> set K" "CHR '':'' \<notin> set K"
    and v: "v \<noteq> []" "set v \<inter> {CHR ''['', CHR '']''} = {}"
    and n: "name \<noteq> []" "set name \<inter> {CHR ''['', CHR '']''} = {}"
    and K: "K = name"
  shows "parse_line st line0 = insert_entry False
           (st\<lparr> keyName := ToLower name, pvalue := v, isArrayKey := False, hasArrayIndex := False \<rparr>)"
proof -
  let ?st3 = "st\<lparr> keyName := [], isArrayKey := False, hasArrayIndex := False \<rparr>"
  have p: "set (K @ e # v) \<inter> {CHR '' '', CHR 0x0A, CHR 0x22, CHR 0x27, CHR '';'', CHR ''#''} = {}"
    by (rule stripped_text [OF l])
  have kp: "set K \<inter> {CHR '' '', CHR ''['', CHR '']'', CHR '';'', CHR ''#''} = {}"
    using p n(2) K by auto
  have eK: "e \<notin> set K" using d by auto
  have k1: "K \<noteq> []" "hd K \<noteq> CHR ''[''" using n K by (cases name; auto)+
  have cl: "classify_key K (st\<lparr> keyName := [] \<rparr>) = ?st3"
    using classify_key_plain [of K "st\<lparr> keyName := [] \<rparr>"] n(2) K by simp
  have kl: "key_loop e ?st3 (K @ e # v @ [CHR 0x0A])
      = (?st3\<lparr> keyName := name, newKey := False \<rparr>, e # v @ [CHR 0x0A])"
    using key_loop_plain_text [OF kp eK, of ?st3 "v @ [CHR 0x0A]"] k1(1) K by simp
  have r: "?st3\<lparr> keyName := ToLower name, pvalue := v \<rparr>
      = st\<lparr> keyName := ToLower name, pvalue := v, isArrayKey := False, hasArrayIndex := False \<rparr>"
    by (cases st) simp
  show ?thesis
    using parse_line_text [OF st l d v k1 cl kl] by (simp only: r)
qed

lemma parse_line_array:
  assumes st: "newKey st" "errorMessage st = []" "\<not> stringValue st"
    and l: "filter (\<lambda>c. \<not> isspace c) line0 = K @ e # v"
      "set line0 \<inter> {CHR 0x22, CHR 0x27, CHR '';'', CHR ''#''} = {}"
    and d: "e = CHR ''='' \<or> e = CHR '':''" "CHR ''='' \<notin> set K" "CHR '':'' \<notin> set K"
    and v: "v \<noteq> []" "set v \<inter> {CHR ''['', CHR '']''} = {}"
    and n: "name \<noteq> []" "set name \<inter> {CHR ''['', CHR '']''} = {}"
    and K: "K = name @ ''[]''"
  shows "parse_line st line0 = insert_entry False
           (st\<lparr> keyName := ToLower name, pvalue := v, isArrayKey := True, hasArrayIndex := False \<rparr>)"
proof -
  let ?st3 = "st\<lparr> keyName := [], isArrayKey := True, hasArrayIndex := False \<rparr>"
  have p: "set (K @ e # v) \<inter> {CHR '' '', CHR 0x0A, CHR 0x22, CHR 0x27, CHR '';'', CHR ''#''} = {}"
    by (rule stripped_text [OF l])
  have np: "set name \<inter> {CHR '' '', CHR ''['', CHR '';'', CHR ''#''} = {}"
    using p n(2) K by auto
  have en: "e \<notin> set name" "e \<noteq> CHR ''[''" using d K by auto
  have k1: "K \<noteq> []" "hd K \<noteq> CHR ''[''" using n K by (cases name; auto)+
  have cl: "classify_key K (st\<lparr> keyName := [] \<rparr>) = ?st3"
    unfolding K by (simp add: classify_key_array)
  have kl: "key_loop e ?st3 (K @ e # v @ [CHR 0x0A])
      = (?st3\<lparr> keyName := name, newKey := False \<rparr>, ''[]'' @ e # v @ [CHR 0x0A])"
    using key_loop_array_text [OF np en, of ?st3 "CHR '']'' # e # v @ [CHR 0x0A]"] K by simp
  have r: "?st3\<lparr> keyName := ToLower name, pvalue := v \<rparr>
      = st\<lparr> keyName := ToLower name, pvalue := v, isArrayKey := True, hasArrayIndex := False \<rparr>"
    by (cases st) simp
  show ?thesis
    using parse_line_text [OF st l d v k1 cl kl] by (simp only: r)
qed

lemma parse_line_indexed:
  assumes st: "newKey st" "errorMessage st = []" "\<not> stringValue st"
    and l: "filter (\<lambda>c. \<not> isspace c) line0 = K @ e # v"
      "set line0 \<inter> {CHR 0x22, CHR 0x27, CHR '';'', CHR ''#''} = {}"
    and d: "e = CHR ''='' \<or> e = CHR '':''" "CHR ''='' \<notin> set K" "CHR '':'' \<notin> set K"
    and v: "v \<noteq> []" "set v \<inter> {CHR ''['', CHR '']''} = {}"
    and n: "name \<noteq> []" "set name \<inter> {CHR ''['', CHR '']''} = {}"
    and K: "K = name @ ''['' @ idx @ '']''" "idx \<noteq> []" "set idx \<inter> {CHR ''['', CHR '']''} = {}"
  shows "parse_line st line0 = insert_entry False
           (st\<lparr> keyName := ToLower name, pvalue := v, arrayIndex := idx, isArrayKey := True,
                hasArrayIndex := True \<rparr>)"
proof -
  let ?st3 = "st\<lparr> keyName := [], arrayIndex := idx, isArrayKey := True, hasArrayIndex := True \<rparr>"
  have p: "set (K @ e # v) \<inter> {CHR '' '', CHR 0x0A, CHR 0x22, CHR 0x27, CHR '';'', CHR ''#''} = {}"
    by (rule stripped_text [OF l])
  have np: "set name \<inter> {CHR '' '', CHR ''['', CHR '';'', CHR ''#''} = {}"
    using p n(2) K(1) by auto
  have en: "e \<notin> set name" "e \<noteq> CHR ''[''" using d K(1) by auto
  have k1: "K \<noteq> []" "hd K \<noteq> CHR ''[''" using n K(1) by (cases name; auto)+
  have b: "CHR ''['' \<notin> set name" "CHR ''['' \<notin> set idx" using n(2) K(3) by auto
  have cl: "classify_key K (st\<lparr> keyName := [] \<rparr>) = ?st3"
    unfolding K(1)
    using classify_key_indexed [OF n(1) b(1) K(2) b(2), of "st\<lparr> keyName := [] \<rparr>"] by simp
  have kl: "key_loop e ?st3 (K @ e # v @ [CHR 0x0A])
      = (?st3\<lparr> keyName := name, newKey := False \<rparr>, ''['' @ idx @ '']'' @ e # v @ [CHR 0x0A])"
    using key_loop_array_text [OF np en, of ?st3 "idx @ CHR '']'' # e # v @ [CHR 0x0A]"] K(1) by simp
  have r: "?st3\<lparr> keyName := ToLower name, pvalue := v \<rparr>
      = st\<lparr> keyName := ToLower name, pvalue := v, arrayIndex := idx, isArrayKey := True,
            hasArrayIndex := True \<rparr>"
    by (cases st) simp
  show ?thesis
    using parse_line_text [OF st l d v k1 cl kl] by (simp only: r)
qed

subsubsection \<open>What is stored can be looked up\<close>

lemma update_first_exn_find:
  "update_first_exn P f xs = Inr ys \<Longrightarrow> find P xs = Some x \<Longrightarrow> (\<And>y. f x = Inr y \<Longrightarrow> P y) \<Longrightarrow>
     \<exists>y. f x = Inr y \<and> find P ys = Some y"
  by (induction xs arbitrary: ys) (auto split: if_splits sum.splits)

lemma update_first_member: "find P xs = Some x \<Longrightarrow> f x \<in> set (update_first P f xs)"
  by (induction xs) (auto split: if_splits)

lemma update_first_map: "(\<And>x. g (f x) = g x) \<Longrightarrow> map g (update_first P f xs) = map g xs"
  by (induction xs) auto

lemma Data_SetArrayEntry_holds:
  assumes "Data_SetArrayEntry k v q c ic d = Inr d'"
  shows "mKey d' = mKey d \<and> v \<in> mValue ` set (mArray d')"
proof -
  obtain key1 d1 where
    g: "(if k = [] then
              (case GetArrayIndex d of
                 Inl x \<Rightarrow> Inl x
               | Inr (i, d1) \<Rightarrow> Inr (to_string (unat i), d1))
            else Inr (k, d)) = Inr (key1, d1)"
    using assms unfolding Data_SetArrayEntry_def by (auto split: sum.splits)
  have d1: "mKey d1 = mKey d \<and> mArray d1 = mArray d"
    using g by (auto simp: GetArrayIndex_def Data_SetArrayIndex_def split: if_splits sum.splits)
  let ?key = "ToLower key1"
  show ?thesis
  proof (cases "has_key ?key (mArray d1)")
    case False
    let ?arr = "mArray d1 @ [new_data ?key v Value False]"
    have m: "map mValue (update_first (\<lambda>e. mKey e = ?key)
                 (\<lambda>e. Data_SetAddQuotes q (Data_SetInlineComment ic e)) ?arr) = map mValue ?arr"
      by (rule update_first_map) (simp add: Data_SetAddQuotes_def Data_SetInlineComment_def)
    have "d' = Data_SetArray (if c then update_first (\<lambda>e. mKey e = ?key)
                 (\<lambda>e. Data_SetAddQuotes q (Data_SetInlineComment ic e)) ?arr else ?arr) d1"
      using assms False unfolding Data_SetArrayEntry_def g by (auto simp: Let_def split: if_splits)
    then have "mKey d' = mKey d1" "map mValue (mArray d') = map mValue ?arr"
      using m by (simp_all add: Data_SetArray_def)
    then have "mKey d' = mKey d1" "v \<in> set (map mValue (mArray d'))"
      by (simp_all add: new_data_def)
    then show ?thesis using d1 by simp
  next
    case True
    then obtain x where x: "find (\<lambda>e. mKey e = ?key) (mArray d1) = Some x"
      by (auto simp: has_key_def)
    let ?f = "\<lambda>e. Data_SetAddQuotes q (Data_SetInlineComment ic (Data_SetValue v e))"
    have "d' = Data_SetArray (update_first (\<lambda>e. mKey e = ?key) ?f (mArray d1)) d1"
      using assms True unfolding Data_SetArrayEntry_def g by (simp add: Let_def)
    then have k: "mKey d' = mKey d1" and a: "mArray d' = update_first (\<lambda>e. mKey e = ?key) ?f (mArray d1)"
      by (simp_all add: Data_SetArray_def)
    have "?f x \<in> set (mArray d')" unfolding a by (rule update_first_member [OF x])
    moreover have "mValue (?f x) = v"
      by (simp add: Data_SetAddQuotes_def Data_SetInlineComment_def Data_SetValue_def)
    ultimately have "v \<in> mValue ` set (mArray d')" by force
    then show ?thesis using k d1 by simp
  qed
qed

lemma store_entry_lookup:
  assumes "store_entry a n st sec = Inr sec'"
  shows "mSectionName sec' = mSectionName sec \<and>
     (\<exists>d. find (\<lambda>d. mKey d = ToLower (keyName st)) (mKeyValuePairs sec') = Some d \<and>
          (if isArrayKey st then pvalue st \<in> mValue ` set (mArray d) else mValue d = pvalue st))"
proof (cases "isArrayKey st")
  case True
  let ?key = "ToLower (keyName st)"
  let ?kvs = "if has_key ?key (mKeyValuePairs sec) then mKeyValuePairs sec
              else mKeyValuePairs sec @ [new_data_key ?key Array (hasArrayIndex st) False]"
  let ?f = "Data_SetArrayEntry (if hasArrayIndex st then arrayIndex st else []) (pvalue st) a
              (hasInlineComment st) n"
  obtain kvs' where u: "update_first_exn (\<lambda>d. mKey d = ?key) ?f ?kvs = Inr kvs'"
    and s: "sec' = sec\<lparr> mKeyValuePairs := kvs' \<rparr>"
    using assms True unfolding store_entry_def Section_SetArrayEntry_def Let_def
    by (auto split: sum.splits)
  have "\<exists>x. find (\<lambda>d. mKey d = ?key) ?kvs = Some x"
  proof (cases "has_key ?key (mKeyValuePairs sec)")
    case True
    then show ?thesis by (auto simp: has_key_def)
  next
    case False
    then have "find (\<lambda>d. mKey d = ?key) (mKeyValuePairs sec) = None" by (simp add: has_key_def)
    then have "find (\<lambda>d. mKey d = ?key) (mKeyValuePairs sec @ [new_data_key ?key Array (hasArrayIndex st) False])
        = Some (new_data_key ?key Array (hasArrayIndex st) False)"
      by (rule find_append_new) (simp add: new_data_key_def)
    then show ?thesis using False by simp
  qed
  then obtain x where x: "find (\<lambda>d. mKey d = ?key) ?kvs = Some x" by blast
  have kx: "mKey x = ?key" using x by (auto simp: find_Some_iff)
  have "\<exists>y. ?f x = Inr y \<and> find (\<lambda>d. mKey d = ?key) kvs' = Some y"
    using u x
  proof (rule update_first_exn_find)
    fix y assume "?f x = Inr y"
    then show "mKey y = ?key" using Data_SetArrayEntry_holds kx by metis
  qed
  then obtain y where y: "?f x = Inr y" "find (\<lambda>d. mKey d = ?key) kvs' = Some y" by blast
  have "pvalue st \<in> mValue ` set (mArray y)" using Data_SetArrayEntry_holds [OF y(1)] by blast
  then show ?thesis using True y(2) s by auto
next
  case False
  let ?key = "ToLower (keyName st)"
  let ?sec1 = "Section_SetKeyValuePair (keyName st) (pvalue st) a sec"
  have s: "sec' = ?sec1\<lparr> mKeyValuePairs :=
             update_first (\<lambda>d. mKey d = ?key) (Data_SetInlineComment n) (mKeyValuePairs ?sec1) \<rparr>"
    using assms False unfolding store_entry_def Let_def by simp
  obtain d where d: "find (\<lambda>d. mKey d = ?key) (mKeyValuePairs ?sec1) = Some d" "mValue d = pvalue st"
    using Section_SetKeyValuePair_lookup [of "keyName st" "pvalue st" a sec] by blast
  have "find (\<lambda>d. mKey d = ?key) (update_first (\<lambda>d. mKey d = ?key) (Data_SetInlineComment n)
           (mKeyValuePairs ?sec1)) = Some (Data_SetInlineComment n d)"
    by (subst find_update_first) (simp_all add: d Data_SetInlineComment_def)
  moreover have "mValue (Data_SetInlineComment n d) = pvalue st"
    using d(2) by (simp add: Data_SetInlineComment_def)
  ultimately show ?thesis using False s by (simp add: Section_SetKeyValuePair_name)
qed

lemma store_entry_pair_total: "\<not> isArrayKey st \<Longrightarrow> \<exists>sec'. store_entry a n st sec = Inr sec'"
  by (simp add: store_entry_def Let_def)

lemma insert_entry_lookup:
  assumes "insert_entry a st = Inr st'" "ToLower (sectionName st) = sectionName st"
  shows "errorMessage st' = errorMessage st \<and>
     (\<exists>sec d. find (\<lambda>s. mSectionName s = sectionName st) (pData st') = Some sec \<and>
          find (\<lambda>d. mKey d = ToLower (keyName st)) (mKeyValuePairs sec) = Some d \<and>
          (if isArrayKey st then pvalue st \<in> mValue ` set (mArray d) else mValue d = pvalue st))"
proof -
  let ?n = "if hasInlineComment st then inlineComment st else []"
  let ?P = "\<lambda>s. mSectionName s = sectionName st"
  let ?f = "store_entry a ?n st"
  show ?thesis
  proof (cases "has_section (sectionName st) (pData st)")
    case False
    obtain sec where sec: "?f (new_section (sectionName st)) = Inr sec"
      and s: "st' = st\<lparr> pData := pData st @ [sec], newValue := False, hasInlineComment := False,
                      inlineComment := [], newKey := True \<rparr>"
      using assms False unfolding insert_entry_def Let_def by (auto split: sum.splits)
    have nm: "mSectionName sec = sectionName st"
      using store_entry_lookup [OF sec] by (simp add: new_section_def)
    have "find ?P (pData st) = None" using False by (simp add: has_section_def)
    then have "find ?P (pData st @ [sec]) = Some sec" by (rule find_append_new) (rule nm)
    then show ?thesis using store_entry_lookup [OF sec] s by auto
  next
    case True
    obtain secs where u: "update_first_exn ?P ?f (pData st) = Inr secs"
      and s: "st' = st\<lparr> pData := secs, newValue := False, hasInlineComment := False,
                      inlineComment := [], newKey := True \<rparr>"
      using assms True unfolding insert_entry_def Let_def by (auto split: sum.splits)
    obtain x where x: "find ?P (pData st) = Some x" using True by (auto simp: has_section_def)
    have nx: "mSectionName x = sectionName st" using x by (auto simp: find_Some_iff)
    have "\<exists>y. ?f x = Inr y \<and> find ?P secs = Some y"
      using u x
    proof (rule update_first_exn_find)
      fix y assume "?f x = Inr y"
      then show "mSectionName y = sectionName st" using store_entry_lookup nx by metis
    qed
    then obtain y where y: "?f x = Inr y" "find ?P secs = Some y" by blast
    show ?thesis using store_entry_lookup [OF y(1)] y(2) s by auto
  qed
qed

lemma insert_entry_pair_total:
  "\<not> isArrayKey st \<Longrightarrow> \<exists>st'. insert_entry a st = Inr st'"
proof -
  assume na: "\<not> isArrayKey st"
  let ?n = "if hasInlineComment st then inlineComment st else []"
  obtain ys where ys: "update_first_exn (\<lambda>s. mSectionName s = ToLower (sectionName st))
           (store_entry a ?n st) (pData st) = Inr ys"
    using update_first_exn_Inr [of "store_entry a ?n st", OF store_entry_pair_total [OF na]] by blast
  obtain sec where sec: "store_entry a ?n st (new_section (sectionName st)) = Inr sec"
    using store_entry_pair_total [OF na] by blast
  show ?thesis
    unfolding insert_entry_def Let_def
    by (cases "has_section (ToLower (sectionName st)) (pData st)") (simp_all only: ys sec if_True if_False not_True_eq_False not_False_eq_True sum.case, blast+)
qed

subsubsection \<open>The key of an array element\<close>

lemma key_step_array_Break:
  "key_step e st c rest = Break st' \<Longrightarrow> isArrayKey st \<Longrightarrow>
     (c = CHR ''['' \<and> keyName st' = keyName st) \<or> errorMessage st' \<noteq> []"
  by (auto simp: key_step_def Let_def add_error_sel split: if_splits)

lemma key_step_array_Continue:
  "key_step e st c rest = Continue st' \<Longrightarrow> isArrayKey st \<Longrightarrow> c \<noteq> CHR ''[''"
  by (auto simp: key_step_def Let_def split: if_splits)

lemma key_loop_array:
  "e \<notin> set pre \<Longrightarrow> isArrayKey st \<Longrightarrow> errorMessage (fst (key_loop e st (pre @ e # post))) = [] \<Longrightarrow>
   keyName (fst (key_loop e st (pre @ e # post)))
     = keyName st @ filter (\<lambda>c. c \<noteq> CHR '' '') (takeWhile (\<lambda>c. c \<noteq> CHR ''['') pre)"
proof (induction pre arbitrary: st)
  case Nil
  then show ?case by simp
next
  case (Cons c cs)
  have ce: "c \<noteq> e" and ecs: "e \<notin> set cs" using Cons.prems(1) by auto
  show ?case
  proof (cases "key_step e st c (cs @ e # post)")
    case (Break st')
    have r: "key_loop e st ((c # cs) @ e # post) = (st', c # cs @ e # post)"
      using ce Break by simp
    have "errorMessage st' = []" using Cons.prems(3) unfolding r by simp
    then have "c = CHR ''['' \<and> keyName st' = keyName st"
      using key_step_array_Break [OF Break Cons.prems(2)] by blast
    then show ?thesis unfolding r by simp
  next
    case (Continue st')
    have a: "isArrayKey st'"
      using key_step_isArrayKey [of e st c "cs @ e # post" st'] Continue Cons.prems(2) by simp
    have cb: "c \<noteq> CHR ''[''" by (rule key_step_array_Continue [OF Continue Cons.prems(2)])
    have kl: "key_loop e st ((c # cs) @ e # post) = key_loop e st' (cs @ e # post)"
      using ce Continue by simp
    have em: "errorMessage (fst (key_loop e st' (cs @ e # post))) = []"
      using Cons.prems(3) kl by simp
    show ?thesis
      using Cons.IH [OF ecs a em] key_step_plain_Continue [OF Continue] cb
      unfolding kl by auto
  qed
qed

text \<open>
  Claim C6. In a line that holds both \<open>=\<close> and \<open>:\<close>, the delimiter is the one that comes
  first and the value is read from the character after it: the value block runs its loop over
  the line from there, wherever the key block has stopped. The key that the key block accepts
  is the text before that delimiter, without blanks and in lower case; for an array element it
  is that text up to its first \<open>[\<close>.

  For a whole line this reads as follows. Let the line, without its white space, be \<open>K\<close>, a
  delimiter \<open>e\<close> and \<open>v\<close>, where \<open>K\<close> holds neither \<open>=\<close> nor \<open>:\<close> and both occur in \<open>e\<close> and \<open>v\<close>;
  let the line hold no quote and no comment character and \<open>v\<close> no bracket. When \<open>K\<close> is a name,
  the name followed by \<open>[]\<close>, or the name followed by an index in brackets, the line parser
  stores the value \<open>v\<close>, which is everything after \<open>e\<close> and holds the later delimiter, under
  the name in lower case: as a pair, as an array element without index, or as the array
  element of that index. A pair is always stored; an array element is stored unless the
  insertion throws. What was stored is found again in the current section under the key.
\<close>

theorem earlier_delimiter_wins:
  "(find_char CHR ''='' line = Some p \<and> find_char CHR '':'' line = Some q \<longrightarrow>
      endCharacter_of line = line ! min p q
      \<and> value_start line characterIndex = min p q + 1
      \<and> (errorMessage st = [] \<and> errorMessage (fst (parse_key st line)) = [] \<longrightarrow>
            keyName (fst (parse_key st line)) =
              ToLower (filter (\<lambda>c. c \<noteq> CHR '' '')
                (if isArrayKey (fst (parse_key st line))
                 then takeWhile (\<lambda>c. c \<noteq> CHR ''['') (take (min p q) line)
                 else take (min p q) line))
            \<and> (\<not> isArrayKey (fst (parse_key st line)) \<longrightarrow>
                  snd (parse_key st line) = drop (min p q) line))
      \<and> parse_value st line rest =
          (if errorMessage st \<noteq> [] then Inr (st\<lparr> pvalue := [] \<rparr>)
           else case value_loop (allQuoteCharacters line) (0, False, st\<lparr> pvalue := [] \<rparr>)
                       (drop (min p q + 1) line) of
                  (currentQuoteCharacter, addQuotes, st3) \<Rightarrow>
                    if errorMessage
                         (if newValue st3 \<and> stringValue st3
                          then add_error ''Value end tag (New line) was not found!'' st3 else st3) = []
                    then insert_entry addQuotes
                           (if newValue st3 \<and> stringValue st3
                            then add_error ''Value end tag (New line) was not found!'' st3 else st3)
                    else Inr (if newValue st3 \<and> stringValue st3
                              then add_error ''Value end tag (New line) was not found!'' st3 else st3)))
   \<and> (newKey st \<and> errorMessage st = [] \<and> \<not> stringValue st
        \<and> filter (\<lambda>c. \<not> isspace c) line0 = K @ e # v
        \<and> set line0 \<inter> {CHR 0x22, CHR 0x27, CHR '';'', CHR ''#''} = {}
        \<and> (e = CHR ''='' \<or> e = CHR '':'') \<and> CHR ''='' \<notin> set K \<and> CHR '':'' \<notin> set K
        \<and> CHR ''='' \<in> set (e # v) \<and> CHR '':'' \<in> set (e # v)
        \<and> set v \<inter> {CHR ''['', CHR '']''} = {}
        \<and> name \<noteq> [] \<and> set name \<inter> {CHR ''['', CHR '']''} = {} \<longrightarrow>
      (K = name \<longrightarrow>
         parse_line st line0 = insert_entry False
           (st\<lparr> keyName := ToLower name, pvalue := v, isArrayKey := False, hasArrayIndex := False \<rparr>)
         \<and> (\<exists>st'. parse_line st line0 = Inr st'))
      \<and> (K = name @ ''[]'' \<longrightarrow>
         parse_line st line0 = insert_entry False
           (st\<lparr> keyName := ToLower name, pvalue := v, isArrayKey := True, hasArrayIndex := False \<rparr>))
      \<and> (K = name @ ''['' @ idx @ '']'' \<and> idx \<noteq> [] \<and> set idx \<inter> {CHR ''['', CHR '']''} = {} \<longrightarrow>
         parse_line st line0 = insert_entry False
           (st\<lparr> keyName := ToLower name, pvalue := v, arrayIndex := idx, isArrayKey := True,
                hasArrayIndex := True \<rparr>))
      \<and> (\<forall>st'. parse_line st line0 = Inr st' \<and> ToLower (sectionName st) = sectionName st
             \<and> (K = name \<or> K = name @ ''[]''
                  \<or> (\<exists>i. K = name @ ''['' @ i @ '']'' \<and> i \<noteq> [] \<and> set i \<inter> {CHR ''['', CHR '']''} = {}))
            \<longrightarrow> errorMessage st' = []
              \<and> (\<exists>sec d. find (\<lambda>s. mSectionName s = sectionName st) (pData st') = Some sec
                    \<and> find (\<lambda>d. mKey d = ToLower name) (mKeyValuePairs sec) = Some d
                    \<and> (if K = name then mValue d = v else v \<in> mValue ` set (mArray d)))))"
  (is "(?A \<longrightarrow> ?c1 \<and> ?c2 \<and> ?c3 \<and> ?c4) \<and> (?H \<longrightarrow> ?d1 \<and> ?d2 \<and> ?d3 \<and> ?d4)")
proof (rule conjI; rule impI)
  assume a: ?A
  then have fe: "find_char CHR ''='' line = Some p" and fq: "find_char CHR '':'' line = Some q"
    by blast+
  have c1: ?c1 by (rule endCharacter_of_min(1) [OF fe fq])
  have c2: ?c2 by (rule endCharacter_of_min(2) [OF fe fq])
  have c3: ?c3
  proof (rule impI)
    assume h: "errorMessage st = [] \<and> errorMessage (fst (parse_key st line)) = []"
    let ?m = "min p q"
    let ?e = "endCharacter_of line"
    let ?pre = "take ?m line"
    let ?post = "drop (Suc ?m) line"
    have fm: "find_char ?e line = Some ?m" by (rule endCharacter_of_min(3) [OF fe fq])
    have split: "line = ?pre @ ?e # ?post" by (rule find_char_Some(4) [OF fm])
    have notin: "?e \<notin> set ?pre" by (rule find_char_Some(3) [OF fm])
    have nd: "\<not> no_delimiter line" by (simp add: no_delimiter_def fe)
    let ?st2 = "st\<lparr> keyName := [] \<rparr>"
    let ?st3 = "classify_key (hd (Split line ?e)) ?st2"
    obtain st4 rest where kl: "key_loop ?e ?st3 line = (st4, rest)"
      by (cases "key_loop ?e ?st3 line") auto
    let ?st5 = "if newKey st4
                then add_error (''Key end tag ('' @ [CHR 0x22, ?e, CHR 0x22] @ '' sign) was not found!'') st4
                else st4"
    have e2: "errorMessage ?st2 = []" using h by simp
    have pk: "parse_key st line =
       (if errorMessage ?st5 = []
        then (?st5\<lparr> keyName := ToLower (keyName ?st5), newKey := False, newValue := True \<rparr>, rest)
        else (?st5, rest))"
      unfolding parse_key_def Let_def using nd e2 by (simp add: kl)
    have e5: "errorMessage ?st5 = []" using h unfolding pk by (auto split: if_splits)
    then have nk: "\<not> newKey st4" by (auto simp: add_error_sel split: if_splits)
    then have s5: "?st5 = st4" by simp
    have e4: "errorMessage st4 = []" using e5 s5 by simp
    have pk': "parse_key st line
        = (st4\<lparr> keyName := ToLower (keyName st4), newKey := False, newValue := True \<rparr>, rest)"
      unfolding pk s5 using e4 by simp
    have ia: "isArrayKey (fst (parse_key st line)) = isArrayKey ?st3"
      unfolding pk' using key_loop_isArrayKey [of ?e ?st3 line] kl by simp
    have kl': "key_loop ?e ?st3 (?pre @ ?e # ?post) = (st4, rest)" using kl split by simp
    have em: "errorMessage (fst (key_loop ?e ?st3 (?pre @ ?e # ?post))) = []"
      unfolding kl' using e4 by simp
    have k3: "keyName ?st3 = []" by (simp add: classify_key_sel)
    have dr: "drop ?m line = ?e # ?post"
      using Cons_nth_drop_Suc [OF find_char_Some(1) [OF fm]] find_char_Some(2) [OF fm] by simp
    show "keyName (fst (parse_key st line)) =
              ToLower (filter (\<lambda>c. c \<noteq> CHR '' '')
                (if isArrayKey (fst (parse_key st line))
                 then takeWhile (\<lambda>c. c \<noteq> CHR ''['') (take (min p q) line)
                 else take (min p q) line))
            \<and> (\<not> isArrayKey (fst (parse_key st line)) \<longrightarrow>
                  snd (parse_key st line) = drop (min p q) line)"
    proof (cases "isArrayKey ?st3")
      case True
      have "keyName st4 = keyName ?st3 @ filter (\<lambda>c. c \<noteq> CHR '' '') (takeWhile (\<lambda>c. c \<noteq> CHR ''['') ?pre)"
        using key_loop_array [OF notin True em] unfolding kl' by simp
      then show ?thesis unfolding ia unfolding pk' using True k3 by simp
    next
      case False
      have "keyName st4 = keyName ?st3 @ filter (\<lambda>c. c \<noteq> CHR '' '') ?pre \<and> rest = ?e # ?post"
        using key_loop_plain [OF notin False em] unfolding kl' by simp
      then show ?thesis unfolding ia unfolding pk' using False k3 dr by simp
    qed
  qed
  have nd: "\<not> no_delimiter line" by (simp add: no_delimiter_def fe)
  have c4: ?c4
    unfolding parse_value_def Let_def endCharacter_of_min(2) [OF fe fq]
    using nd by (simp split: prod.splits)
  show "?c1 \<and> ?c2 \<and> ?c3 \<and> ?c4" by (rule conjI [OF c1 conjI [OF c2 conjI [OF c3 c4]]])
next
  assume H: ?H
  note st = H [THEN conjunct1] H [THEN conjunct2, THEN conjunct1] H [THEN conjunct2, THEN conjunct2, THEN conjunct1]
  note l = H [THEN conjunct2, THEN conjunct2, THEN conjunct2, THEN conjunct1] H [THEN conjunct2, THEN conjunct2, THEN conjunct2, THEN conjunct2, THEN conjunct1]
  note d = H [THEN conjunct2, THEN conjunct2, THEN conjunct2, THEN conjunct2, THEN conjunct2, THEN conjunct1] H [THEN conjunct2, THEN conjunct2, THEN conjunct2, THEN conjunct2, THEN conjunct2, THEN conjunct2, THEN conjunct1] H [THEN conjunct2, THEN conjunct2, THEN conjunct2, THEN conjunct2, THEN conjunct2, THEN conjunct2, THEN conjunct2, THEN conjunct1]
  note both = H [THEN conjunct2, THEN conjunct2, THEN conjunct2, THEN conjunct2, THEN conjunct2, THEN conjunct2, THEN conjunct2, THEN conjunct2, THEN conjunct1] H [THEN conjunct2, THEN conjunct2, THEN conjunct2, THEN conjunct2, THEN conjunct2, THEN conjunct2, THEN conjunct2, THEN conjunct2, THEN conjunct2, THEN conjunct1]
  note vb = H [THEN conjunct2, THEN conjunct2, THEN conjunct2, THEN conjunct2, THEN conjunct2, THEN conjunct2, THEN conjunct2, THEN conjunct2, THEN conjunct2, THEN conjunct2, THEN conjunct1]
  note n = H [THEN conjunct2, THEN conjunct2, THEN conjunct2, THEN conjunct2, THEN conjunct2, THEN conjunct2, THEN conjunct2, THEN conjunct2, THEN conjunct2, THEN conjunct2, THEN conjunct2, THEN conjunct1] H [THEN conjunct2, THEN conjunct2, THEN conjunct2, THEN conjunct2, THEN conjunct2, THEN conjunct2, THEN conjunct2, THEN conjunct2, THEN conjunct2, THEN conjunct2, THEN conjunct2, THEN conjunct2]
  have vn: "v \<noteq> []" using both by auto
  note v = vn vb
  have A: "K = name \<Longrightarrow> parse_line st line0 = insert_entry False
           (st\<lparr> keyName := ToLower name, pvalue := v, isArrayKey := False, hasArrayIndex := False \<rparr>)"
    by (rule parse_line_pair [OF st l d v n])
  have B: "K = name @ ''[]'' \<Longrightarrow> parse_line st line0 = insert_entry False
           (st\<lparr> keyName := ToLower name, pvalue := v, isArrayKey := True, hasArrayIndex := False \<rparr>)"
    by (rule parse_line_array [OF st l d v n])
  have C: "K = name @ ''['' @ i @ '']'' \<Longrightarrow> i \<noteq> [] \<Longrightarrow> set i \<inter> {CHR ''['', CHR '']''} = {} \<Longrightarrow>
      parse_line st line0 = insert_entry False
           (st\<lparr> keyName := ToLower name, pvalue := v, arrayIndex := i, isArrayKey := True,
                hasArrayIndex := True \<rparr>)" for i
    by (rule parse_line_indexed [OF st l d v n])
  have d1: ?d1
  proof (intro impI conjI)
    assume K: "K = name"
    show "parse_line st line0 = insert_entry False
           (st\<lparr> keyName := ToLower name, pvalue := v, isArrayKey := False, hasArrayIndex := False \<rparr>)"
      by (rule A [OF K])
    show "\<exists>st'. parse_line st line0 = Inr st'"
      unfolding A [OF K] by (rule insert_entry_pair_total) simp
  qed
  have d2: ?d2 using B by blast
  have d3: ?d3 using C by blast
  have d4: ?d4
  proof (intro allI impI)
    fix st'
    assume a: "parse_line st line0 = Inr st' \<and> ToLower (sectionName st) = sectionName st
             \<and> (K = name \<or> K = name @ ''[]''
                  \<or> (\<exists>i. K = name @ ''['' @ i @ '']'' \<and> i \<noteq> [] \<and> set i \<inter> {CHR ''['', CHR '']''} = {}))"
    then have r: "parse_line st line0 = Inr st'" and sn: "ToLower (sectionName st) = sectionName st"
      by blast+
    have "\<exists>stx. parse_line st line0 = insert_entry False stx \<and> keyName stx = ToLower name
        \<and> pvalue stx = v \<and> isArrayKey stx = (K \<noteq> name) \<and> sectionName stx = sectionName st
        \<and> errorMessage stx = []"
    proof -
      consider (pair) "K = name" | (array) "K = name @ ''[]''"
        | (indexed) i where "K = name @ ''['' @ i @ '']''" "i \<noteq> []" "set i \<inter> {CHR ''['', CHR '']''} = {}"
        using a by blast
      then show ?thesis
      proof cases
        case pair
        show ?thesis
          by (rule exI [of _ "st\<lparr> keyName := ToLower name, pvalue := v, isArrayKey := False,
                hasArrayIndex := False \<rparr>"]) (simp add: A [OF pair] pair st(2))
      next
        case array
        show ?thesis
          by (rule exI [of _ "st\<lparr> keyName := ToLower name, pvalue := v, isArrayKey := True,
                hasArrayIndex := False \<rparr>"]) (simp add: B [OF array] array st(2))
      next
        case indexed
        show ?thesis
          by (rule exI [of _ "st\<lparr> keyName := ToLower name, pvalue := v, arrayIndex := i,
                isArrayKey := True, hasArrayIndex := True \<rparr>"])
             (simp add: C [OF indexed] indexed(1) st(2))
      qed
    qed
    then obtain stx where x: "parse_line st line0 = insert_entry False stx"
      "keyName stx = ToLower name" "pvalue stx = v" "isArrayKey stx = (K \<noteq> name)"
      "sectionName stx = sectionName st" "errorMessage stx = []" by blast
    have ie: "insert_entry False stx = Inr st'" using r x(1) by simp
    have sx: "ToLower (sectionName stx) = sectionName stx" using sn x(5) by simp
    show "errorMessage st' = []
              \<and> (\<exists>sec d. find (\<lambda>s. mSectionName s = sectionName st) (pData st') = Some sec
                    \<and> find (\<lambda>d. mKey d = ToLower name) (mKeyValuePairs sec) = Some d
                    \<and> (if K = name then mValue d = v else v \<in> mValue ` set (mArray d)))"
      using insert_entry_lookup [OF ie sx] unfolding x(2-6) ToLower_idem
      by (cases "K = name") auto
  qed
show "?d1 \<and> ?d2 \<and> ?d3 \<and> ?d4" by (rule conjI [OF d1 conjI [OF d2 conjI [OF d3 d4]]])
qed

theorem earlier_delimiter_wins_witness:
  "(find_char CHR ''='' (''Na me:b=c'' @ [CHR 0x0A]) = Some 7 \<and> find_char CHR '':'' (''Na me:b=c'' @ [CHR 0x0A]) = Some 5
    \<and> errorMessage (init_pstate []) = []
    \<and> errorMessage (fst (parse_key (init_pstate []) (''Na me:b=c'' @ [CHR 0x0A]))) = []
    \<and> \<not> isArrayKey (fst (parse_key (init_pstate []) (''Na me:b=c'' @ [CHR 0x0A])))
    \<and> endCharacter_of (''Na me:b=c'' @ [CHR 0x0A]) = CHR '':''
    \<and> value_start (''Na me:b=c'' @ [CHR 0x0A]) 0 = 6
    \<and> keyName (fst (parse_key (init_pstate []) (''Na me:b=c'' @ [CHR 0x0A]))) = ''name''
    \<and> snd (parse_key (init_pstate []) (''Na me:b=c'' @ [CHR 0x0A])) = '':b=c'' @ [CHR 0x0A])
   \<and> (find_char CHR ''='' (''a[]=b:c'' @ [CHR 0x0A]) = Some 3 \<and> find_char CHR '':'' (''a[]=b:c'' @ [CHR 0x0A]) = Some 5
    \<and> errorMessage (fst (parse_key (init_pstate []) (''a[]=b:c'' @ [CHR 0x0A]))) = []
    \<and> isArrayKey (fst (parse_key (init_pstate []) (''a[]=b:c'' @ [CHR 0x0A])))
    \<and> endCharacter_of (''a[]=b:c'' @ [CHR 0x0A]) = CHR ''=''
    \<and> value_start (''a[]=b:c'' @ [CHR 0x0A]) 0 = 4
    \<and> keyName (fst (parse_key (init_pstate []) (''a[]=b:c'' @ [CHR 0x0A]))) = ''a'')
   \<and> ((newKey (init_pstate []) \<and> errorMessage (init_pstate []) = [] \<and> \<not> stringValue (init_pstate [])
        \<and> filter (\<lambda>c. \<not> isspace c) (''Na me : b=c'' @ [CHR 0x0A]) = ''Name'' @ CHR '':'' # ''b=c''
        \<and> set (''Na me : b=c'' @ [CHR 0x0A]) \<inter> {CHR 0x22, CHR 0x27, CHR '';'', CHR ''#''} = {}
        \<and> (CHR '':'' = CHR ''='' \<or> CHR '':'' = CHR '':'') \<and> CHR ''='' \<notin> set ''Name'' \<and> CHR '':'' \<notin> set ''Name''
        \<and> CHR ''='' \<in> set (CHR '':'' # ''b=c'') \<and> CHR '':'' \<in> set (CHR '':'' # ''b=c'')
        \<and> set ''b=c'' \<inter> {CHR ''['', CHR '']''} = {}
        \<and> ''Name'' \<noteq> [] \<and> set ''Name'' \<inter> {CHR ''['', CHR '']''} = {})
    \<and> parse_line (init_pstate []) (''Na me : b=c'' @ [CHR 0x0A]) = insert_entry False
         ((init_pstate [])\<lparr> keyName := ''name'', pvalue := ''b=c'', isArrayKey := False,
             hasArrayIndex := False \<rparr>)
    \<and> ToLower (sectionName (init_pstate [])) = sectionName (init_pstate [])
    \<and> (\<exists>st' sec d. parse_line (init_pstate []) (''Na me : b=c'' @ [CHR 0x0A]) = Inr st' \<and> errorMessage st' = []
          \<and> find (\<lambda>s. mSectionName s = sectionName (init_pstate [])) (pData st') = Some sec
          \<and> find (\<lambda>d. mKey d = ToLower ''Name'') (mKeyValuePairs sec) = Some d \<and> mValue d = ''b=c''))
   \<and> ((newKey (init_pstate []) \<and> errorMessage (init_pstate []) = [] \<and> \<not> stringValue (init_pstate [])
        \<and> filter (\<lambda>c. \<not> isspace c) (''a[]=b:c'' @ [CHR 0x0A]) = ''a[]'' @ CHR ''='' # ''b:c''
        \<and> set (''a[]=b:c'' @ [CHR 0x0A]) \<inter> {CHR 0x22, CHR 0x27, CHR '';'', CHR ''#''} = {}
        \<and> (CHR ''='' = CHR ''='' \<or> CHR ''='' = CHR '':'') \<and> CHR ''='' \<notin> set ''a[]'' \<and> CHR '':'' \<notin> set ''a[]''
        \<and> CHR ''='' \<in> set (CHR ''='' # ''b:c'') \<and> CHR '':'' \<in> set (CHR ''='' # ''b:c'')
        \<and> set ''b:c'' \<inter> {CHR ''['', CHR '']''} = {}
        \<and> ''a'' \<noteq> [] \<and> set ''a'' \<inter> {CHR ''['', CHR '']''} = {})
    \<and> parse_line (init_pstate []) (''a[]=b:c'' @ [CHR 0x0A]) = insert_entry False
         ((init_pstate [])\<lparr> keyName := ''a'', pvalue := ''b:c'', isArrayKey := True,
             hasArrayIndex := False \<rparr>)
    \<and> (\<exists>st' sec d. parse_line (init_pstate []) (''a[]=b:c'' @ [CHR 0x0A]) = Inr st' \<and> errorMessage st' = []
          \<and> find (\<lambda>s. mSectionName s = sectionName (init_pstate [])) (pData st') = Some sec
          \<and> find (\<lambda>d. mKey d = ToLower ''a'') (mKeyValuePairs sec) = Some d \<and> ''b:c'' \<in> mValue ` set (mArray d)))
   \<and> ((newKey (init_pstate []) \<and> errorMessage (init_pstate []) = [] \<and> \<not> stringValue (init_pstate [])
        \<and> filter (\<lambda>c. \<not> isspace c) (''a[7]:b=c'' @ [CHR 0x0A]) = ''a[7]'' @ CHR '':'' # ''b=c''
        \<and> set (''a[7]:b=c'' @ [CHR 0x0A]) \<inter> {CHR 0x22, CHR 0x27, CHR '';'', CHR ''#''} = {}
        \<and> (CHR '':'' = CHR ''='' \<or> CHR '':'' = CHR '':'') \<and> CHR ''='' \<notin> set ''a[7]'' \<and> CHR '':'' \<notin> set ''a[7]''
        \<and> CHR ''='' \<in> set (CHR '':'' # ''b=c'') \<and> CHR '':'' \<in> set (CHR '':'' # ''b=c'')
        \<and> set ''b=c'' \<inter> {CHR ''['', CHR '']''} = {}
        \<and> ''a'' \<noteq> [] \<and> set ''a'' \<inter> {CHR ''['', CHR '']''} = {})
    \<and> ''a[7]'' = ''a'' @ ''['' @ ''7'' @ '']'' \<and> ''7'' \<noteq> [] \<and> set ''7'' \<inter> {CHR ''['', CHR '']''} = {}
    \<and> parse_line (init_pstate []) (''a[7]:b=c'' @ [CHR 0x0A]) = insert_entry False
         ((init_pstate [])\<lparr> keyName := ''a'', pvalue := ''b=c'', arrayIndex := ''7'', isArrayKey := True,
             hasArrayIndex := True \<rparr>)
    \<and> (\<exists>st' sec d. parse_line (init_pstate []) (''a[7]:b=c'' @ [CHR 0x0A]) = Inr st' \<and> errorMessage st' = []
          \<and> find (\<lambda>s. mSectionName s = sectionName (init_pstate [])) (pData st') = Some sec
          \<and> find (\<lambda>d. mKey d = ToLower ''a'') (mKeyValuePairs sec) = Some d \<and> ''b=c'' \<in> mValue ` set (mArray d)))"
  (is "(?f1 \<and> ?f2 \<and> ?g1 \<and> ?g2 \<and> ?g3 \<and> ?a1 \<and> ?a2 \<and> ?a3 \<and> ?a4)
     \<and> (?f3 \<and> ?f4 \<and> ?g4 \<and> ?g5 \<and> ?b1 \<and> ?b2 \<and> ?b3)
     \<and> (?H2 \<and> ?p2 \<and> ?s2 \<and> ?l2) \<and> (?H3 \<and> ?p3 \<and> ?l3) \<and> (?H4 \<and> ?i1 \<and> ?i2 \<and> ?i3 \<and> ?p4 \<and> ?l4)")
proof -
  let ?I = "init_pstate []"
  let ?L1 = "''Na me:b=c'' @ [CHR 0x0A]"
  let ?La = "''a[]=b:c'' @ [CHR 0x0A]"
  let ?L2 = "''Na me : b=c'' @ [CHR 0x0A]"
  let ?L3 = "''a[]=b:c'' @ [CHR 0x0A]"
  let ?L4 = "''a[7]:b=c'' @ [CHR 0x0A]"
  have f1: ?f1 and f2: ?f2 and g1: ?g1 and g2: ?g2 and g3: ?g3 by code_simp+
  have f3: ?f3 and f4: ?f4 and g4: ?g4 and g5: ?g5 by code_simp+
  have low: "ToLower ''a'' = ''a''" "ToLower ''Name'' = ''name''" by code_simp+
  note t1 = earlier_delimiter_wins [where line = ?L1 and p = 7 and q = 5 and characterIndex = 0
      and st = ?I, THEN conjunct1, THEN mp, OF conjI [OF f1 f2]]
  have a1: ?a1
  proof -
    have "?L1 ! min 7 5 = CHR '':''" by code_simp
    then show ?thesis using t1 [THEN conjunct1] by simp
  qed
  have a2: ?a2 using t1 [THEN conjunct2, THEN conjunct1] by simp
  note k1 = t1 [THEN conjunct2, THEN conjunct2, THEN conjunct1, THEN mp, OF conjI [OF g1 g2]]
  have a3: ?a3
  proof -
    have "ToLower (filter (\<lambda>c. c \<noteq> CHR '' '') (take (min 7 5) ?L1)) = ''name''" by code_simp
    then show ?thesis using k1 [THEN conjunct1] g3 by simp
  qed
  have a4: ?a4
  proof -
    have "drop (min 7 5) ?L1 = '':b=c'' @ [CHR 0x0A]" by code_simp
    then show ?thesis using k1 [THEN conjunct2, THEN mp, OF g3] by simp
  qed
  note t2 = earlier_delimiter_wins [where line = ?La and p = 3 and q = 5 and characterIndex = 0
      and st = ?I, THEN conjunct1, THEN mp, OF conjI [OF f3 f4]]
  have b1: ?b1
  proof -
    have "?La ! min 3 5 = CHR ''=''" by code_simp
    then show ?thesis using t2 [THEN conjunct1] by simp
  qed
  have b2: ?b2 using t2 [THEN conjunct2, THEN conjunct1] by simp
  note k2 = t2 [THEN conjunct2, THEN conjunct2, THEN conjunct1, THEN mp, OF conjI [OF g1 g4]]
  have b3: ?b3
  proof -
    have "ToLower (filter (\<lambda>c. c \<noteq> CHR '' '')
            (takeWhile (\<lambda>c. c \<noteq> CHR ''['') (take (min 3 5) ?La))) = ''a''" by code_simp
    then show ?thesis using k2 [THEN conjunct1] g5 by simp
  qed
  have H2: ?H2 by code_simp
  have H3: ?H3 by code_simp
  have H4: ?H4 by code_simp
  have s2: ?s2 by code_simp
  have i1: ?i1 and i2: ?i2 and i3: ?i3 by simp_all
  note u2 = earlier_delimiter_wins [where st = ?I and line0 = ?L2 and K = "''Name''" and e = "CHR '':''"
      and v = "''b=c''" and name = "''Name''", THEN conjunct2, THEN mp, OF H2]
  have p2: ?p2 using u2 [THEN conjunct1, THEN mp, OF refl, THEN conjunct1] by (simp only: low)
  obtain st2 where r2: "parse_line ?I ?L2 = Inr st2"
    using u2 [THEN conjunct1, THEN mp, OF refl, THEN conjunct2] by blast
  have l2: ?l2
    using u2 [THEN conjunct2, THEN conjunct2, THEN conjunct2, THEN spec, of st2, THEN mp,
              OF conjI [OF r2 conjI [OF s2 disjI1 [OF refl]]]] r2
    by auto
  note u3 = earlier_delimiter_wins [where st = ?I and line0 = ?L3 and K = "''a[]''" and e = "CHR ''=''"
      and v = "''b:c''" and name = "''a''", THEN conjunct2, THEN mp, OF H3]
  have k3: "''a[]'' = ''a'' @ ''[]''" by simp
  have p3: ?p3 using u3 [THEN conjunct2, THEN conjunct1, THEN mp, OF k3] by (simp only: low)
  have "\<not> isl (parse_line ?I ?L3)" by code_simp
  then obtain st3 where r3: "parse_line ?I ?L3 = Inr st3" by (cases "parse_line ?I ?L3") auto
  have l3: ?l3
    using u3 [THEN conjunct2, THEN conjunct2, THEN conjunct2, THEN spec, of st3, THEN mp,
              OF conjI [OF r3 conjI [OF s2 disjI2 [OF disjI1 [OF k3]]]]] r3
    by auto
  note u4 = earlier_delimiter_wins [where st = ?I and line0 = ?L4 and K = "''a[7]''" and e = "CHR '':''"
      and v = "''b=c''" and name = "''a''" and idx = "''7''", THEN conjunct2, THEN mp, OF H4]
  have p4: ?p4
    using u4 [THEN conjunct2, THEN conjunct2, THEN conjunct1, THEN mp, OF conjI [OF i1 conjI [OF i2 i3]]]
    by (simp only: low)
  have "\<not> isl (parse_line ?I ?L4)" by code_simp
  then obtain st4 where r4: "parse_line ?I ?L4 = Inr st4" by (cases "parse_line ?I ?L4") auto
  have x4: "\<exists>i. ''a[7]'' = ''a'' @ ''['' @ i @ '']'' \<and> i \<noteq> [] \<and> set i \<inter> {CHR ''['', CHR '']''} = {}"
    by (rule exI [of _ "''7''"]) (rule conjI [OF i1 conjI [OF i2 i3]])
  have l4: ?l4
    using u4 [THEN conjunct2, THEN conjunct2, THEN conjunct2, THEN spec, of st4, THEN mp,
              OF conjI [OF r4 conjI [OF s2 disjI2 [OF disjI2 [OF x4]]]]] r4
    by auto
  have w1: "?f1 \<and> ?f2 \<and> ?g1 \<and> ?g2 \<and> ?g3 \<and> ?a1 \<and> ?a2 \<and> ?a3 \<and> ?a4"
    by (intro conjI) (rule f1 f2 g1 g2 g3 a1 a2 a3 a4)+
  have w2: "?f3 \<and> ?f4 \<and> ?g4 \<and> ?g5 \<and> ?b1 \<and> ?b2 \<and> ?b3"
    by (intro conjI) (rule f3 f4 g4 g5 b1 b2 b3)+
  have w3: "?H2 \<and> ?p2 \<and> ?s2 \<and> ?l2"
    by (rule conjI [OF H2 conjI [OF p2 conjI [OF s2 l2]]])
  have w4: "?H3 \<and> ?p3 \<and> ?l3"
    by (rule conjI [OF H3 conjI [OF p3 l3]])
  have w5: "?H4 \<and> ?i1 \<and> ?i2 \<and> ?i3 \<and> ?p4 \<and> ?l4"
    by (rule conjI [OF H4 conjI [OF i1 conjI [OF i2 conjI [OF i3 conjI [OF p4 l4]]]]])
  show ?thesis
    by (rule conjI [OF w1 conjI [OF w2 conjI [OF w3 conjI [OF w4 w5]]]])
qed
subsection \<open>Writing and reading back\<close>

text \<open>
  Claim C1 says that a file written by \<open>WriteFile\<close> is read by \<open>ParseFile\<close> into a document
  that \<open>WriteFile\<close> writes as the same bytes. The code does not do that. A value that holds a
  backslash, here the three characters \<open>a\<close>, backslash, \<open>b\<close> set with \<open>SetValue\<close> in the global
  section, is written with the backslash doubled, and \<open>ParseFile\<close> throws on the file so
  written, because its decoder knows no escape but the hexadecimal one. And the three bytes
  \<open>a=1\<close> that \<open>WriteFile\<close> writes for the single pair are refused by \<open>ParseFile\<close> as a file
  of less than 6 bytes: the stream stays as it was, and writing it gives the empty file.
\<close>

theorem round_trip_fails:
  "WriteFile (\<lambda>s. Inl range_error) (\<lambda>s. Inl range_error) True False None_BOM
     (snd (SetValue ''HI_Global'' ''path'' [CHR ''a'', CHR 0x5C, CHR ''b''] False new_stream))
     = Inr (True, ''path=a'' @ [CHR 0x5C, CHR 0x5C] @ ''b'')
   \<and> ParseFile (\<lambda>u. Inl range_error) (\<lambda>u. Inl range_error)
       (Some (''path=a'' @ [CHR 0x5C, CHR 0x5C] @ ''b'')) new_stream
     = Inl (runtime_error ''Invalid escape character!'')
   \<and> WriteFile (\<lambda>s. Inl range_error) (\<lambda>s. Inl range_error) True False None_BOM
       (snd (SetValue ''HI_Global'' ''a'' ''1'' False new_stream)) = Inr (True, ''a=1'')
   \<and> ParseFile (\<lambda>u. Inl range_error) (\<lambda>u. Inl range_error) (Some ''a=1'') new_stream
     = Inr (False, new_stream, [''INI file cannot be smaller than 6 bytes!''])
   \<and> WriteFile (\<lambda>s. Inl range_error) (\<lambda>s. Inl range_error) True False None_BOM new_stream
     = Inr (True, [])"
  by code_simp

end
